theory Spec2Isabelle
  imports Complex_Main "HOL-Library.AList" "HOL-Library.Multiset"
begin

section \<open>Errors and fallible arithmetic\<close>

text \<open>
  The analyzer is Python. Every place where it can raise is a branch of the model:
  \<^item> \<open>a / b\<close> raises \<open>ZeroDivisionError\<close> when \<open>b\<close> is zero;
  \<^item> \<open>xs[i]\<close> raises \<open>IndexError\<close> when \<open>i\<close> is not below \<open>len(xs)\<close>;
  \<^item> \<open>d[k]\<close> raises \<open>KeyError\<close> when \<open>k\<close> is not a key of \<open>d\<close>.
  Python's \<open>float\<close> is modelled by \<open>real\<close>: rounding, infinities and NaN are outside
  the model, the order of the arithmetic operations is the source's.
\<close>

datatype error = ZeroDivisionError | IndexError | KeyError

definition bind_res :: "error + 'a \<Rightarrow> ('a \<Rightarrow> error + 'b) \<Rightarrow> error + 'b" where
  "bind_res m f = (case m of Inl e \<Rightarrow> Inl e | Inr x \<Rightarrow> f x)"

lemma bind_res_cong [fundef_cong]:
  "m = m' \<Longrightarrow> (\<And>x. m' = Inr x \<Longrightarrow> f x = f' x) \<Longrightarrow> bind_res m f = bind_res m' f'"
  by (auto simp: bind_res_def split: sum.splits)

definition truediv :: "real \<Rightarrow> real \<Rightarrow> error + real" where
  "truediv a b = (if b = 0 then Inl ZeroDivisionError else Inr (a / b))"

definition subscript :: "'a list \<Rightarrow> nat \<Rightarrow> error + 'a" where
  "subscript xs i = (if i < length xs then Inr (xs ! i) else Inl IndexError)"

definition getitem :: "('k \<times> 'v) list \<Rightarrow> 'k \<Rightarrow> error + 'v" where
  "getitem d k = (case map_of d k of None \<Rightarrow> Inl KeyError | Some v \<Rightarrow> Inr v)"

section \<open>HeroStats\<close>

text \<open>
  The dataclass \<open>HeroStats\<close> of \<open>analyze_team.py\<close>. The integer fields are Python's
  unbounded \<open>int\<close>, the three cumulative totals are \<open>float\<close>.
\<close>

record HeroStats =
  hero_name :: string
  role :: string
  games_played :: int
  wins :: int
  losses :: int
  total_kills :: int
  total_deaths :: int
  total_assists :: int
  total_damage :: real
  total_healing :: real
  total_damage_blocked :: real
  total_time_played_ms :: int
  mvp_count :: int
  svp_count :: int

text \<open>\<open>HeroStats(hero_name=n, role=r)\<close>: every other field takes its default.\<close>

definition new_HeroStats :: "string \<Rightarrow> string \<Rightarrow> HeroStats" where
  "new_HeroStats n r =
     \<lparr>hero_name = n, role = r, games_played = 0, wins = 0, losses = 0,
      total_kills = 0, total_deaths = 0, total_assists = 0,
      total_damage = 0, total_healing = 0, total_damage_blocked = 0,
      total_time_played_ms = 0, mvp_count = 0, svp_count = 0\<rparr>"

definition win_rate :: "HeroStats \<Rightarrow> error + real" where
  "win_rate h =
     (if games_played h > 0
      then truediv (real_of_int (wins h)) (real_of_int (games_played h))
      else Inr 0)"

definition kda :: "HeroStats \<Rightarrow> error + real" where
  "kda h =
     truediv (real_of_int (total_kills h + total_assists h))
             (real_of_int (max (total_deaths h) 1))"

definition avg_damage_per_min :: "HeroStats \<Rightarrow> error + real" where
  "avg_damage_per_min h =
     bind_res (truediv (real_of_int (total_time_played_ms h)) 60000) (\<lambda>minutes.
       if minutes > 0 then truediv (total_damage h) minutes else Inr 0)"

definition avg_healing_per_min :: "HeroStats \<Rightarrow> error + real" where
  "avg_healing_per_min h =
     bind_res (truediv (real_of_int (total_time_played_ms h)) 60000) (\<lambda>minutes.
       if minutes > 0 then truediv (total_healing h) minutes else Inr 0)"

definition avg_blocked_per_min :: "HeroStats \<Rightarrow> error + real" where
  "avg_blocked_per_min h =
     bind_res (truediv (real_of_int (total_time_played_ms h)) 60000) (\<lambda>minutes.
       if minutes > 0 then truediv (total_damage_blocked h) minutes else Inr 0)"

definition performance_score :: "HeroStats \<Rightarrow> error + real" where
  "performance_score h =
     bind_res (win_rate h) (\<lambda>wr.
     bind_res (kda h) (\<lambda>k.
     bind_res (Inr (wr * 40 + min k 5 / 5 * 30)) (\<lambda>base_score.
     bind_res
       (if role h = ''Vanguard''
        then bind_res (avg_blocked_per_min h) (\<lambda>b. Inr (min (b / 3000) 1 * 30))
        else if role h = ''Strategist''
        then bind_res (avg_healing_per_min h) (\<lambda>hl. Inr (min (hl / 2000) 1 * 30))
        else bind_res (avg_damage_per_min h) (\<lambda>d. Inr (min (d / 1500) 1 * 30)))
       (\<lambda>role_score.
     bind_res (truediv (real_of_int (mvp_count h + svp_count h))
                       (real_of_int (max (games_played h) 1))) (\<lambda>q.
     bind_res (Inr (q * 5)) (\<lambda>mvp_bonus.
       Inr (base_score + role_score + mvp_bonus)))))))"

section \<open>PlayerProfile\<close>

text \<open>
  \<open>hero_stats\<close> is a Python dict: an association list in insertion order, its keys
  unique. \<open>AList.update\<close> is the dict assignment \<open>d[k] = v\<close>: it replaces the value
  of a key in place and adds a new key at the end.
\<close>

record PlayerProfile =
  player_name :: string
  hero_stats :: "(string \<times> HeroStats) list"
  total_games :: int
  total_wins :: int

definition overall_win_rate :: "PlayerProfile \<Rightarrow> error + real" where
  "overall_win_rate p =
     (if total_games p > 0
      then truediv (real_of_int (total_wins p)) (real_of_int (total_games p))
      else Inr 0)"

text \<open>
  \<open>sorted(xs, key=..., reverse=True)\<close> computes the key of every element first, in
  order (a key that raises aborts the call), then sorts on the keys. With
  \<open>reverse=True\<close> the sort stays stable: elements with equal keys keep their order.
  That is a stable ascending sort on the negated key.
\<close>

fun score_keys :: "(string \<times> HeroStats) list \<Rightarrow> error + real list" where
  "score_keys [] = Inr []"
| "score_keys (x # xs) =
     bind_res (performance_score (snd x)) (\<lambda>k.
     bind_res (score_keys xs) (\<lambda>ks. Inr (k # ks)))"

definition sorted_reverse :: "(real \<times> 'a) list \<Rightarrow> 'a list" where
  "sorted_reverse kxs = map snd (sort_key (\<lambda>kx. - fst kx) kxs)"

definition sorted_by_score ::
  "(string \<times> HeroStats) list \<Rightarrow> error + (string \<times> HeroStats) list" where
  "sorted_by_score xs = bind_res (score_keys xs) (\<lambda>ks. Inr (sorted_reverse (zip ks xs)))"

text \<open>The slice \<open>xs[:n]\<close>; a negative \<open>n\<close> counts from the end.\<close>

definition slice_to :: "int \<Rightarrow> 'a list \<Rightarrow> 'a list" where
  "slice_to n xs = (if n < 0 then take (length xs - nat (- n)) xs else take (nat n) xs)"

definition get_best_heroes_by_role ::
  "PlayerProfile \<Rightarrow> string \<Rightarrow> int \<Rightarrow> error + (string \<times> HeroStats) list" where
  "get_best_heroes_by_role p r min_games =
     sorted_by_score
       (filter (\<lambda>(name, stats). role stats = r \<and> games_played stats \<ge> min_games)
               (hero_stats p))"

definition get_top_heroes ::
  "PlayerProfile \<Rightarrow> int \<Rightarrow> int \<Rightarrow> error + (string \<times> HeroStats) list" where
  "get_top_heroes p n min_games =
     bind_res (sorted_by_score
                 (filter (\<lambda>(name, stats). games_played stats \<ge> min_games) (hero_stats p)))
       (\<lambda>s. Inr (slice_to n s))"

section \<open>Option lists\<close>

type_synonym role_options = "(string \<times> (string \<times> real) list) list"
type_synonym player_options = "(string \<times> role_options) list"

definition empty_options :: role_options where
  "empty_options = [(''Vanguard'', []), (''Duelist'', []), (''Strategist'', [])]"

text \<open>\<open>for hero_name, stats in heroes[:3]: options[role].append(...)\<close>\<close>

fun append_heroes ::
  "string \<Rightarrow> (string \<times> HeroStats) list \<Rightarrow> role_options \<Rightarrow> error + role_options" where
  "append_heroes r [] opts = Inr opts"
| "append_heroes r (x # rest) opts =
     bind_res (getitem opts r) (\<lambda>lst.
     bind_res (performance_score (snd x)) (\<lambda>sc.
       append_heroes r rest (AList.update r (lst @ [(fst x, sc)]) opts)))"

text \<open>\<open>for role in options.keys(): ...\<close>\<close>

fun role_loop ::
  "PlayerProfile \<Rightarrow> int \<Rightarrow> string list \<Rightarrow> role_options \<Rightarrow> error + role_options" where
  "role_loop p min_games [] opts = Inr opts"
| "role_loop p min_games (r # rs) opts =
     bind_res (get_best_heroes_by_role p r min_games) (\<lambda>heroes.
     bind_res (append_heroes r (slice_to 3 heroes) opts) (\<lambda>opts'.
       role_loop p min_games rs opts'))"

text \<open>\<open>for hero_name, stats in player.get_top_heroes(5, min_games): ...\<close>\<close>

fun top_loop :: "(string \<times> HeroStats) list \<Rightarrow> role_options \<Rightarrow> error + role_options" where
  "top_loop [] opts = Inr opts"
| "top_loop (x # rest) opts =
     (if role (snd x) \<in> set (map fst opts)
      then bind_res (performance_score (snd x)) (\<lambda>sc.
           bind_res (getitem opts (role (snd x))) (\<lambda>lst.
             if (fst x, sc) \<notin> set lst
             then bind_res (getitem opts (role (snd x))) (\<lambda>lst'.
                  bind_res (performance_score (snd x)) (\<lambda>sc'.
                    top_loop rest (AList.update (role (snd x)) (lst' @ [(fst x, sc')]) opts)))
             else top_loop rest opts))
      else top_loop rest opts)"

definition options_of_player :: "PlayerProfile \<Rightarrow> int \<Rightarrow> error + role_options" where
  "options_of_player p min_games =
     bind_res (role_loop p min_games (map fst empty_options) empty_options) (\<lambda>opts.
     bind_res (get_top_heroes p 5 min_games) (\<lambda>tops. top_loop tops opts))"

text \<open>\<open>for player in players: ...; player_options[player.player_name] = options\<close>\<close>

fun build_player_options ::
  "PlayerProfile list \<Rightarrow> int \<Rightarrow> player_options \<Rightarrow> error + player_options" where
  "build_player_options [] min_games po = Inr po"
| "build_player_options (p # ps) min_games po =
     bind_res (options_of_player p min_games) (\<lambda>opts.
       build_player_options ps min_games (AList.update (player_name p) opts po))"

section \<open>Composition search\<close>

type_synonym template = "(string \<times> int) list"
type_synonym assignment = "(string \<times> (string \<times> string)) list"
type_synonym candidate = "real \<times> assignment"

text \<open>The five dicts of \<open>target_comps\<close>, in the source's order.\<close>

definition target_comps :: "template list" where
  "target_comps =
     [[(''Vanguard'', 2), (''Duelist'', 2), (''Strategist'', 1)],
      [(''Vanguard'', 1), (''Duelist'', 2), (''Strategist'', 2)],
      [(''Vanguard'', 2), (''Duelist'', 1), (''Strategist'', 2)],
      [(''Vanguard'', 1), (''Duelist'', 3), (''Strategist'', 1)],
      [(''Vanguard'', 2), (''Duelist'', 1), (''Strategist'', 2)]]"

text \<open>
  \<open>for role, count in target_comp.items(): roles_needed.extend([role] * count)\<close>;
  \<open>[role] * count\<close> is empty for a count below one.
\<close>

fun roles_needed :: "template \<Rightarrow> string list" where
  "roles_needed [] = []"
| "roles_needed (rc # rest) = replicate (nat (snd rc)) (fst rc) @ roles_needed rest"

text \<open>
  \<open>itertools.permutations\<close>: every arrangement by position, in the lexicographic order
  of the positions; equal elements at different positions give equal arrangements
  more than once.
\<close>

fun picks :: "'a list \<Rightarrow> ('a \<times> 'a list) list" where
  "picks [] = []"
| "picks (x # xs) = (x, xs) # map (\<lambda>yr. (fst yr, x # snd yr)) (picks xs)"

lemma picks_length: "yr \<in> set (picks xs) \<Longrightarrow> length (snd yr) < length xs"
  by (induction xs arbitrary: yr) auto

function permutations :: "'a list \<Rightarrow> 'a list list" where
  "permutations [] = [[]]"
| "permutations (x # xs) =
     concat (map (\<lambda>yr. map ((#) (fst yr)) (permutations (snd yr))) (picks (x # xs)))"
  by pat_completeness auto
termination
  by (relation "measure length") (auto dest: picks_length)

text \<open>
  \<open>set(permutations(roles_needed))\<close> keeps one copy of every arrangement. Python does
  not fix the order in which a set is iterated; the model takes it as a parameter
  \<open>it\<close>, a function from the sequence of tuples put into the set to the sequence the
  loop sees. \<open>set_order it\<close> says that \<open>it\<close> behaves as a set does: every element
  once.
\<close>

type_synonym set_iteration = "string list list \<Rightarrow> string list list"

definition set_order :: "set_iteration \<Rightarrow> bool" where
  "set_order it = (\<forall>xs. distinct (it xs) \<and> set (it xs) = set xs)"

text \<open>
  The inner loop of \<open>find_best_assignment\<close>: the first option not in \<open>used_heroes\<close>,
  \<open>(None, 0)\<close> when there is none.
\<close>

fun best_available :: "(string \<times> real) list \<Rightarrow> string set \<Rightarrow> string option \<times> real" where
  "best_available [] used = (None, 0)"
| "best_available (hs # rest) used =
     (if fst hs \<notin> used then (Some (fst hs), snd hs) else best_available rest used)"

record search_state =
  assignment :: assignment
  total_score :: real
  valid :: bool
  used_heroes :: "string set"

definition init_state :: search_state where
  "init_state = \<lparr>assignment = [], total_score = 0, valid = True, used_heroes = {}\<rparr>"

text \<open>
  \<open>for i, player_name in enumerate(player_names): ...\<close>, from position \<open>i\<close> on. A
  player without an unused hero sets \<open>valid = False\<close> and leaves the loop.
\<close>

fun player_loop ::
  "player_options \<Rightarrow> string list \<Rightarrow> nat \<Rightarrow> string list \<Rightarrow> search_state
   \<Rightarrow> error + search_state" where
  "player_loop po role_assignment i [] st = Inr st"
| "player_loop po role_assignment i (pn # rest) st =
     bind_res (subscript role_assignment i) (\<lambda>r.
     bind_res (getitem po pn) (\<lambda>by_role.
     bind_res (getitem by_role r) (\<lambda>options.
       case best_available options (used_heroes st) of
         (None, best_score) \<Rightarrow> Inr (st\<lparr>valid := False\<rparr>)
       | (Some best_hero, best_score) \<Rightarrow>
           player_loop po role_assignment (Suc i) rest
             (st\<lparr>assignment := AList.update pn (best_hero, r) (assignment st),
                 used_heroes := insert best_hero (used_heroes st),
                 total_score := total_score st + best_score\<rparr>))))"

text \<open>\<open>for role_assignment in set(permutations(roles_needed)): ...\<close>\<close>

fun ordering_loop ::
  "player_options \<Rightarrow> string list \<Rightarrow> string list list \<Rightarrow> candidate list
   \<Rightarrow> error + candidate list" where
  "ordering_loop po player_names [] results = Inr results"
| "ordering_loop po player_names (ra # ras) results =
     bind_res (player_loop po ra 0 player_names init_state) (\<lambda>st.
       ordering_loop po player_names ras
         (if valid st then results @ [(total_score st, assignment st)] else results))"

definition find_best_assignment ::
  "set_iteration \<Rightarrow> PlayerProfile list \<Rightarrow> player_options \<Rightarrow> template
   \<Rightarrow> error + candidate list" where
  "find_best_assignment it players po target_comp =
     ordering_loop po (map player_name players)
       (it (permutations (roles_needed target_comp))) []"

text \<open>\<open>for target in target_comps: compositions.extend(find_best_assignment(...))\<close>\<close>

fun target_loop ::
  "set_iteration \<Rightarrow> PlayerProfile list \<Rightarrow> player_options \<Rightarrow> template list
   \<Rightarrow> candidate list \<Rightarrow> error + candidate list" where
  "target_loop it players po [] compositions = Inr compositions"
| "target_loop it players po (target # rest) compositions =
     bind_res (find_best_assignment it players po target) (\<lambda>comp_results.
       target_loop it players po rest (compositions @ comp_results))"

text \<open>The list \<open>compositions\<close> as it stands before it is sorted.\<close>

definition all_compositions ::
  "set_iteration \<Rightarrow> PlayerProfile list \<Rightarrow> int \<Rightarrow> error + candidate list" where
  "all_compositions it players min_games =
     bind_res (build_player_options players min_games []) (\<lambda>po.
       target_loop it players po target_comps [])"

definition find_optimal_compositions ::
  "set_iteration \<Rightarrow> PlayerProfile list \<Rightarrow> int \<Rightarrow> int \<Rightarrow> error + candidate list" where
  "find_optimal_compositions it players min_games top_n =
     bind_res (all_compositions it players min_games) (\<lambda>compositions.
       Inr (slice_to top_n (sort_key (\<lambda>c. - fst c) compositions)))"

section \<open>Aggregation\<close>

text \<open>
  \<open>extract_player_stats\<close> reads the exported match history. The model takes the list
  \<open>data["data"]["matches"]\<close>, each match being the list of its segments, and of a
  segment the fields the function reads, typed as the function uses them: a key of
  the JSON object that may be missing is an \<open>option\<close> or the default that \<open>.get\<close>
  supplies; \<open>seg_heroes\<close> is \<open>metadata.get("heroes", [])\<close>, each entry reduced to its
  \<open>"name"\<close> (\<open>None\<close> when the entry has no such key); the statistics are the values
  after \<open>int(...)\<close> and \<open>float(...)\<close>. JSON of another shape is outside the model.
\<close>

text \<open>\<open>HERO_ROLES\<close>, in the order of the source; no key occurs twice.\<close>

definition HERO_ROLES :: "(string \<times> string) list" where
  "HERO_ROLES =
     [(''Angela'', ''Vanguard''), (''Bruce Banner'', ''Vanguard''),
      (''Hulk'', ''Vanguard''), (''Captain America'', ''Vanguard''),
      (''Doctor Strange'', ''Vanguard''), (''Groot'', ''Vanguard''),
      (''Magneto'', ''Vanguard''), (''Peni Parker'', ''Vanguard''),
      (''Thor'', ''Vanguard''), (''Venom'', ''Vanguard''), (''The Thing'', ''Vanguard''),
      (''Thing'', ''Vanguard''), (''Black Panther'', ''Duelist''),
      (''Black Widow'', ''Duelist''), (''Blade'', ''Duelist''),
      (''Daredevil'', ''Duelist''), (''Hawkeye'', ''Duelist''), (''Hela'', ''Duelist''),
      (''Human Torch'', ''Duelist''), (''Iron Fist'', ''Duelist''),
      (''Iron Man'', ''Duelist''), (''Magik'', ''Duelist''),
      (''Mister Fantastic'', ''Duelist''), (''Mr. Fantastic'', ''Duelist''),
      (''Moon Knight'', ''Duelist''), (''Namor'', ''Duelist''), (''Phoenix'', ''Duelist''),
      (''Psylocke'', ''Duelist''), (''Scarlet Witch'', ''Duelist''),
      (''Spider-Man'', ''Duelist''), (''Spiderman'', ''Duelist''),
      (''Squirrel Girl'', ''Duelist''), (''Star-Lord'', ''Duelist''),
      (''Storm'', ''Duelist''), (''The Punisher'', ''Duelist''),
      (''Punisher'', ''Duelist''), (''Winter Soldier'', ''Duelist''),
      (''Wolverine'', ''Duelist''), (''Emma Frost'', ''Duelist''),
      (''Rogue'', ''Duelist''), (''Adam Warlock'', ''Strategist''),
      (''Cloak & Dagger'', ''Strategist''), (''Cloak and Dagger'', ''Strategist''),
      (''Invisible Woman'', ''Strategist''), (''Jeff the Land Shark'', ''Strategist''),
      (''Jeff The Land Shark'', ''Strategist''), (''Jeff'', ''Strategist''),
      (''Loki'', ''Strategist''), (''Luna Snow'', ''Strategist''),
      (''Mantis'', ''Strategist''), (''Rocket Raccoon'', ''Strategist''),
      (''Rocket'', ''Strategist''), (''Gambit'', ''Strategist''),
      (''Ultron'', ''Strategist'')]"

text \<open>\<open>d.get(k, default)\<close>\<close>

definition dict_get :: "('k \<times> 'v) list \<Rightarrow> 'k \<Rightarrow> 'v \<Rightarrow> 'v" where
  "dict_get d k dflt = (case map_of d k of None \<Rightarrow> dflt | Some v \<Rightarrow> v)"

text \<open>\<open>str.lower\<close> on ASCII text.\<close>

definition lower_char :: "char \<Rightarrow> char" where
  "lower_char c =
     (if (65::nat) \<le> of_char c \<and> of_char c \<le> (90::nat)
      then char_of (of_char c + (32::nat)) else c)"

definition lower :: "string \<Rightarrow> string" where
  "lower s = map lower_char s"

record segment =
  seg_type :: "string option"
  seg_handle :: "string option"
  seg_heroes :: "string option list"
  seg_result :: string
  seg_is_mvp :: bool
  seg_is_svp :: bool
  seg_kills :: int
  seg_deaths :: int
  seg_assists :: int
  seg_damage :: real
  seg_healing :: real
  seg_damage_taken :: real
  seg_time_played :: int

type_synonym match = "segment list"

text \<open>
  The first loop, over the segments of the first match: the handle of the first
  overview segment that has a non-empty one.
\<close>

fun first_handle :: "segment list \<Rightarrow> string option" where
  "first_handle [] = None"
| "first_handle (seg # segs) =
     (if seg_type seg = Some ''overview''
      then (case seg_handle seg of
              None \<Rightarrow> first_handle segs
            | Some h \<Rightarrow> if h \<noteq> [] then Some h else first_handle segs)
      else first_handle segs)"

definition actual_player_name :: "match list \<Rightarrow> string \<Rightarrow> string" where
  "actual_player_name matches player_name_hint =
     (case matches of
        [] \<Rightarrow> player_name_hint
      | first_match # _ \<Rightarrow>
          (case first_handle first_match of None \<Rightarrow> player_name_hint | Some h \<Rightarrow> h))"

text \<open>The lines \<open>hero_stat.games_played += 1\<close> to \<open>hero_stat.svp_count += ...\<close>.\<close>

definition add_segment :: "segment \<Rightarrow> HeroStats \<Rightarrow> HeroStats" where
  "add_segment seg h =
     (let is_win = (lower (seg_result seg) = ''win'') in
      h\<lparr>games_played := games_played h + 1,
        wins := wins h + (if is_win then 1 else 0),
        losses := losses h + (if is_win then 0 else 1),
        total_kills := total_kills h + seg_kills seg,
        total_deaths := total_deaths h + seg_deaths seg,
        total_assists := total_assists h + seg_assists seg,
        total_damage := total_damage h + seg_damage seg,
        total_healing := total_healing h + seg_healing seg,
        total_damage_blocked := total_damage_blocked h + seg_damage_taken seg,
        total_time_played_ms := total_time_played_ms h + seg_time_played seg,
        mvp_count := mvp_count h + (if seg_is_mvp seg then 1 else 0),
        svp_count := svp_count h + (if seg_is_svp seg then 1 else 0)\<rparr>)"

text \<open>
  The body of the loop over the segments. The three \<open>continue\<close> of the source are the
  three branches that return the profile as it is; a hero seen for the first time gets
  a new \<open>HeroStats\<close> at the end of the dict.
\<close>

definition segment_step :: "string \<Rightarrow> segment \<Rightarrow> PlayerProfile \<Rightarrow> PlayerProfile" where
  "segment_step actual seg profile =
     (if seg_type seg \<noteq> Some ''overview'' then profile
      else if lower (case seg_handle seg of None \<Rightarrow> [] | Some h \<Rightarrow> h) \<noteq> lower actual
      then profile
      else (case seg_heroes seg of
              [] \<Rightarrow> profile
            | first_hero # _ \<Rightarrow>
                (let name = (case first_hero of None \<Rightarrow> ''Unknown'' | Some n \<Rightarrow> n);
                     hero_role = dict_get HERO_ROLES name ''Unknown'';
                     hero_stat = (case map_of (hero_stats profile) name of
                                    None \<Rightarrow> new_HeroStats name hero_role
                                  | Some h \<Rightarrow> h)
                 in profile\<lparr>hero_stats :=
                              AList.update name (add_segment seg hero_stat) (hero_stats profile),
                            total_games := total_games profile + 1,
                            total_wins := total_wins profile
                              + (if lower (seg_result seg) = ''win'' then 1 else 0)\<rparr>)))"

fun segment_loop :: "string \<Rightarrow> segment list \<Rightarrow> PlayerProfile \<Rightarrow> PlayerProfile" where
  "segment_loop actual [] profile = profile"
| "segment_loop actual (seg # segs) profile =
     segment_loop actual segs (segment_step actual seg profile)"

fun match_loop :: "string \<Rightarrow> match list \<Rightarrow> PlayerProfile \<Rightarrow> PlayerProfile" where
  "match_loop actual [] profile = profile"
| "match_loop actual (m # ms) profile = match_loop actual ms (segment_loop actual m profile)"

definition extract_player_stats :: "match list \<Rightarrow> string \<Rightarrow> PlayerProfile" where
  "extract_player_stats matches player_name_hint =
     (let actual = actual_player_name matches player_name_hint in
      match_loop actual matches
        \<lparr>player_name = actual, hero_stats = [], total_games = 0, total_wins = 0\<rparr>)"

section \<open>Values and reference definitions\<close>

text \<open>
  The value of the score, as a function of the aggregate: the sum of the win-rate term,
  the capped KDA term, the term of the role and the MVP/SVP bonus.
\<close>

definition score_of :: "HeroStats \<Rightarrow> real" where
  "score_of h =
     (if games_played h > 0 then real_of_int (wins h) / real_of_int (games_played h) else 0) * 40
     + min (real_of_int (total_kills h + total_assists h)
            / real_of_int (max (total_deaths h) 1)) 5 / 5 * 30
     + (if role h = ''Vanguard''
        then min ((if total_time_played_ms h > 0
                   then total_damage_blocked h / (real_of_int (total_time_played_ms h) / 60000)
                   else 0) / 3000) 1 * 30
        else if role h = ''Strategist''
        then min ((if total_time_played_ms h > 0
                   then total_healing h / (real_of_int (total_time_played_ms h) / 60000)
                   else 0) / 2000) 1 * 30
        else min ((if total_time_played_ms h > 0
                   then total_damage h / (real_of_int (total_time_played_ms h) / 60000)
                   else 0) / 1500) 1 * 30)
     + real_of_int (mvp_count h + svp_count h) / real_of_int (max (games_played h) 1) * 5"

text \<open>The stable descending sort on the score, and a hero paired with its score.\<close>

definition ranked :: "(string \<times> HeroStats) list \<Rightarrow> (string \<times> HeroStats) list" where
  "ranked xs = sort_key (\<lambda>x. - score_of (snd x)) xs"

definition scored :: "string \<times> HeroStats \<Rightarrow> string \<times> real" where
  "scored x = (fst x, score_of (snd x))"

text \<open>\<open>if x not in l: l.append(x)\<close>\<close>

definition add_new :: "'a \<Rightarrow> 'a list \<Rightarrow> 'a list" where
  "add_new x l = (if x \<in> set l then l else l @ [x])"

text \<open>
  The option list of a player for a role: the three best heroes of the role, then the
  heroes of the role among the five best overall, each added unless it is there already.
\<close>

definition option_list :: "PlayerProfile \<Rightarrow> int \<Rightarrow> string \<Rightarrow> (string \<times> real) list" where
  "option_list p mg r =
     fold add_new
       (map scored (filter (\<lambda>x. role (snd x) = r)
          (slice_to 5 (ranked (filter (\<lambda>(name, stats). games_played stats \<ge> mg) (hero_stats p))))))
       (map scored (slice_to 3
          (ranked (filter (\<lambda>(name, stats). role stats = r \<and> games_played stats \<ge> mg) (hero_stats p)))))"

definition options_value :: "PlayerProfile \<Rightarrow> int \<Rightarrow> role_options" where
  "options_value p mg =
     [(''Vanguard'', option_list p mg ''Vanguard''),
      (''Duelist'', option_list p mg ''Duelist''),
      (''Strategist'', option_list p mg ''Strategist'')]"

text \<open>How many of the five best heroes overall have role \<open>r\<close>.\<close>

definition top5_count :: "PlayerProfile \<Rightarrow> int \<Rightarrow> string \<Rightarrow> nat" where
  "top5_count p mg r =
     length (filter (\<lambda>x. role (snd x) = r)
       (take 5 (ranked (filter (\<lambda>(name, stats). games_played stats \<ge> mg) (hero_stats p)))))"

subsection \<open>The greedy assignment, as the specification words it\<close>

text \<open>
  \<open>options_for po pn r\<close> is \<open>player_options[pn][r]\<close> where both keys exist.
  \<open>first_fit\<close> visits the (player, role) pairs in order; each player takes the first
  hero of the option list of the role that no earlier player has taken; a player with
  no such hero makes the whole ordering fail. A pick is (player, role, hero, score).
\<close>

definition options_for :: "player_options \<Rightarrow> string \<Rightarrow> string \<Rightarrow> (string \<times> real) list" where
  "options_for po pn r =
     (case map_of po pn of None \<Rightarrow> []
      | Some by_role \<Rightarrow> (case map_of by_role r of None \<Rightarrow> [] | Some l \<Rightarrow> l))"

type_synonym pick = "string \<times> string \<times> string \<times> real"

fun first_fit :: "player_options \<Rightarrow> (string \<times> string) list \<Rightarrow> string set \<Rightarrow> pick list option" where
  "first_fit po [] used = Some []"
| "first_fit po (pr # rest) used =
     (case find (\<lambda>hs. fst hs \<notin> used) (options_for po (fst pr) (snd pr)) of
        None \<Rightarrow> None
      | Some hs \<Rightarrow>
          map_option ((#) (fst pr, snd pr, fst hs, snd hs))
            (first_fit po rest (insert (fst hs) used)))"

definition pick_hero :: "pick \<Rightarrow> string" where
  "pick_hero k = fst (snd (snd k))"

definition pick_score :: "pick \<Rightarrow> real" where
  "pick_score k = snd (snd (snd k))"

text \<open>\<open>assignment[player_name] = (best_hero, role)\<close>\<close>

definition record_pick :: "pick \<Rightarrow> assignment \<Rightarrow> assignment" where
  "record_pick k a = AList.update (fst k) (pick_hero k, fst (snd k)) a"

text \<open>The candidate of a list of picks: the sum of the scores, and the dict of the picks.\<close>

definition candidate_of :: "pick list \<Rightarrow> candidate" where
  "candidate_of chosen = (sum_list (map pick_score chosen), fold record_pick chosen [])"

text \<open>Every player has an entry in \<open>po\<close>, and every entry has each of the roles.\<close>

definition options_complete :: "player_options \<Rightarrow> string list \<Rightarrow> string list \<Rightarrow> bool" where
  "options_complete po names roles =
     (\<forall>pn \<in> set names. \<exists>by_role. map_of po pn = Some by_role \<and>
        (\<forall>r \<in> set roles. \<exists>l. map_of by_role r = Some l))"

text \<open>The role orderings the loop of \<open>find_best_assignment\<close> sees for a template.\<close>

definition orderings :: "set_iteration \<Rightarrow> template \<Rightarrow> string list list" where
  "orderings it t = it (permutations (roles_needed t))"

text \<open>
  Some ordering is shorter than the list of players and its greedy assignment gets
  through every position the ordering has: the next player is indexed out of range.
\<close>

definition overflow :: "player_options \<Rightarrow> string list \<Rightarrow> string list list \<Rightarrow> bool" where
  "overflow po names ras =
     (\<exists>ra \<in> set ras. length ra < length names \<and> first_fit po (zip names ra) {} \<noteq> None)"

text \<open>The candidates of the orderings on which the greedy assignment succeeds, in order.\<close>

definition valid_candidates ::
  "player_options \<Rightarrow> string list \<Rightarrow> string list list \<Rightarrow> candidate list" where
  "valid_candidates po names ras =
     List.map_filter (\<lambda>ra. map_option candidate_of (first_fit po (zip names ra) {})) ras"

subsection \<open>The option table and the candidate pool\<close>

text \<open>The dict \<open>player_options\<close> after the first loop of \<open>find_optimal_compositions\<close>.\<close>

definition built_options :: "PlayerProfile list \<Rightarrow> int \<Rightarrow> player_options" where
  "built_options players mg =
     fold (\<lambda>p. AList.update (player_name p) (options_value p mg)) players []"

text \<open>The valid candidates of the five templates, one template after the other.\<close>

definition pool_of :: "set_iteration \<Rightarrow> PlayerProfile list \<Rightarrow> int \<Rightarrow> candidate list" where
  "pool_of it players mg =
     concat (map (\<lambda>t. valid_candidates (built_options players mg) (map player_name players)
                         (orderings it t)) target_comps)"

definition any_overflow :: "set_iteration \<Rightarrow> PlayerProfile list \<Rightarrow> int \<Rightarrow> bool" where
  "any_overflow it players mg =
     (\<exists>t \<in> set target_comps.
        overflow (built_options players mg) (map player_name players) (orderings it t))"

subsection \<open>Candidates without a repeated hero\<close>

definition hero_of :: "string \<times> string \<times> string \<Rightarrow> string" where
  "hero_of e = fst (snd e)"

text \<open>
  The entries of an assignment are (player, (hero, role)): no player has two entries and
  no hero stands in two entries.
\<close>

definition no_hero_twice :: "assignment \<Rightarrow> bool" where
  "no_hero_twice a = (distinct (map fst a) \<and> distinct (map hero_of a))"

definition state_ok :: "search_state \<Rightarrow> bool" where
  "state_ok st = (no_hero_twice (assignment st) \<and>
                  set (map hero_of (assignment st)) \<subseteq> used_heroes st)"

subsection \<open>Arrangements of a multiset\<close>

definition arrangements :: "'a multiset \<Rightarrow> 'a list set" where
  "arrangements M = {zs. mset zs = M}"

text \<open>The product of the factorials of the multiplicities.\<close>

definition repeat_factor :: "'a multiset \<Rightarrow> nat" where
  "repeat_factor M = (\<Prod>x \<in> set_mset M. fact (count M x))"

subsection \<open>Sample data\<close>

text \<open>
  A hero with \<open>g\<close> games and \<open>w\<close> wins and nothing else recorded scores
  \<open>w / g * 40\<close>. Two players: alice plays Hela (Duelist, score 20) and Thor (Vanguard,
  score 40); bob plays Loki (Strategist, score 10), Hela (Duelist, score 40) and Storm
  (Duelist, score 10).
\<close>

definition sample_hero :: "string \<Rightarrow> string \<Rightarrow> int \<Rightarrow> int \<Rightarrow> HeroStats" where
  "sample_hero n r g w = (new_HeroStats n r)\<lparr>games_played := g, wins := w, losses := g - w\<rparr>"

definition alice :: PlayerProfile where
  "alice = \<lparr>player_name = ''alice'',
            hero_stats = [(''Hela'', sample_hero ''Hela'' ''Duelist'' 4 2),
                          (''Thor'', sample_hero ''Thor'' ''Vanguard'' 4 4)],
            total_games = 8, total_wins = 6\<rparr>"

definition bob :: PlayerProfile where
  "bob = \<lparr>player_name = ''bob'',
          hero_stats = [(''Loki'', sample_hero ''Loki'' ''Strategist'' 4 1),
                        (''Hela'', sample_hero ''Hela'' ''Duelist'' 4 4),
                        (''Storm'', sample_hero ''Storm'' ''Duelist'' 4 1)],
          total_games = 12, total_wins = 6\<rparr>"

definition sample_options :: player_options where
  "sample_options = [(''alice'', options_value alice 3), (''bob'', options_value bob 3)]"

text \<open>A player without any hero, a player with one hero, and two squads of six.\<close>

definition nobody :: "string \<Rightarrow> PlayerProfile" where
  "nobody n = \<lparr>player_name = n, hero_stats = [], total_games = 0, total_wins = 0\<rparr>"

definition specialist :: "string \<Rightarrow> string \<Rightarrow> string \<Rightarrow> PlayerProfile" where
  "specialist n h r =
     \<lparr>player_name = n, hero_stats = [(h, sample_hero h r 4 2)], total_games = 4, total_wins = 2\<rparr>"

definition empty_squad :: "PlayerProfile list" where
  "empty_squad = map nobody [''p1'', ''p2'', ''p3'', ''p4'', ''p5'', ''p6'']"

definition full_squad :: "PlayerProfile list" where
  "full_squad =
     [specialist ''p1'' ''Thor'' ''Vanguard'', specialist ''p2'' ''Hulk'' ''Vanguard'',
      specialist ''p3'' ''Hela'' ''Duelist'', specialist ''p4'' ''Storm'' ''Duelist'',
      specialist ''p5'' ''Loki'' ''Strategist'', specialist ''p6'' ''Mantis'' ''Strategist'']"

section \<open>The rates never fault\<close>

lemma bind_res_Inr [simp]: "bind_res (Inr x) f = f x"
  by (simp add: bind_res_def)

lemma bind_res_Inl [simp]: "bind_res (Inl e) f = Inl e"
  by (simp add: bind_res_def)

lemma win_rate_value:
  "win_rate h = Inr (if games_played h > 0
                     then real_of_int (wins h) / real_of_int (games_played h) else 0)"
  by (simp add: win_rate_def truediv_def)

lemma kda_value:
  "kda h = Inr (real_of_int (total_kills h + total_assists h)
                / real_of_int (max (total_deaths h) 1))"
proof -
  have "max (total_deaths h) 1 \<noteq> 0" by simp
  then show ?thesis by (simp add: kda_def truediv_def)
qed

lemma avg_damage_per_min_value:
  "avg_damage_per_min h =
     Inr (if total_time_played_ms h > 0
          then total_damage h / (real_of_int (total_time_played_ms h) / 60000) else 0)"
  by (simp add: avg_damage_per_min_def truediv_def)

lemma avg_healing_per_min_value:
  "avg_healing_per_min h =
     Inr (if total_time_played_ms h > 0
          then total_healing h / (real_of_int (total_time_played_ms h) / 60000) else 0)"
  by (simp add: avg_healing_per_min_def truediv_def)

lemma avg_blocked_per_min_value:
  "avg_blocked_per_min h =
     Inr (if total_time_played_ms h > 0
          then total_damage_blocked h / (real_of_int (total_time_played_ms h) / 60000) else 0)"
  by (simp add: avg_blocked_per_min_def truediv_def)

lemma mvp_bonus_value:
  "truediv (real_of_int (mvp_count h + svp_count h)) (real_of_int (max (games_played h) 1))
   = Inr (real_of_int (mvp_count h + svp_count h) / real_of_int (max (games_played h) 1))"
proof -
  have "max (games_played h) 1 \<noteq> 0" by simp
  then show ?thesis by (simp add: truediv_def)
qed

lemma performance_score_value: "performance_score h = Inr (score_of h)"
  unfolding performance_score_def score_of_def
  by (simp only: win_rate_value kda_value avg_damage_per_min_value avg_healing_per_min_value
        avg_blocked_per_min_value mvp_bonus_value bind_res_Inr if_distrib [of "\<lambda>m. bind_res m f" for f]
        if_distrib [of Inr, symmetric])

section \<open>Sorting by score\<close>

lemma score_keys_value: "score_keys xs = Inr (map (\<lambda>x. score_of (snd x)) xs)"
  by (induction xs) (simp_all add: performance_score_value)

lemma insort_decorated:
  "\<forall>kx \<in> set L. fst kx = f (snd kx) \<Longrightarrow>
   map snd (insort_key (\<lambda>kx. - fst kx) (f x, x) L) = insort_key (\<lambda>y. - f y) x (map snd L)"
  for f :: "'a \<Rightarrow> real"
  by (induction L) auto

lemma set_sort_decorated:
  "\<forall>kx \<in> set (sort_key (\<lambda>kx. - fst kx) (zip (map f xs) xs)). fst kx = f (snd kx)"
  for f :: "'a \<Rightarrow> real"
  by (auto simp: set_zip)

lemma sort_decorated:
  "map snd (sort_key (\<lambda>kx. - fst kx) (zip (map f xs) xs)) = sort_key (\<lambda>y. - f y) xs"
  for f :: "'a \<Rightarrow> real"
proof (induction xs)
  case Nil
  then show ?case by simp
next
  case (Cons x xs)
  have "map snd (sort_key (\<lambda>kx. - fst kx) (zip (map f (x # xs)) (x # xs)))
        = map snd (insort_key (\<lambda>kx. - fst kx) (f x, x)
                     (sort_key (\<lambda>kx. - fst kx) (zip (map f xs) xs)))"
    by simp
  also have "\<dots> = insort_key (\<lambda>y. - f y) x
                     (map snd (sort_key (\<lambda>kx. - fst kx) (zip (map f xs) xs)))"
    by (rule insort_decorated) (rule set_sort_decorated)
  finally show ?case using Cons.IH by simp
qed

lemma sorted_by_score_value: "sorted_by_score xs = Inr (ranked xs)"
  by (simp add: sorted_by_score_def score_keys_value sorted_reverse_def ranked_def sort_decorated)

lemma get_best_heroes_by_role_value:
  "get_best_heroes_by_role p r mg =
     Inr (ranked (filter (\<lambda>(name, stats). role stats = r \<and> games_played stats \<ge> mg) (hero_stats p)))"
  by (simp add: get_best_heroes_by_role_def sorted_by_score_value)

lemma get_top_heroes_value:
  "get_top_heroes p n mg =
     Inr (slice_to n (ranked (filter (\<lambda>(name, stats). games_played stats \<ge> mg) (hero_stats p))))"
  by (simp add: get_top_heroes_def sorted_by_score_value)

section \<open>The option lists, as values\<close>

lemma getitem_Some: "map_of d k = Some v \<Longrightarrow> getitem d k = Inr v"
  by (simp add: getitem_def)

lemma append_heroes_value:
  "map_of opts r = Some lst \<Longrightarrow>
   append_heroes r hs opts = Inr (AList.update r (lst @ map scored hs) opts)"
proof (induction hs arbitrary: lst opts)
  case Nil
  then show ?case by (simp add: update_triv)
next
  case (Cons x rest)
  have m: "map_of (AList.update r (lst @ [scored x]) opts) r = Some (lst @ [scored x])"
    by (simp add: update_conv')
  show ?case
    using Cons.IH [OF m] Cons.prems
    by (simp add: getitem_Some performance_score_value scored_def)
qed

lemma top_loop_value:
  "\<exists>opts'. top_loop tops opts = Inr opts' \<and> map fst opts' = map fst opts \<and>
      (\<forall>r lst. map_of opts r = Some lst \<longrightarrow>
          map_of opts' r =
            Some (fold add_new (map scored (filter (\<lambda>x. role (snd x) = r) tops)) lst))"
proof (induction tops arbitrary: opts)
  case Nil
  then show ?case by simp
next
  case (Cons x rest)
  show ?case
  proof (cases "role (snd x) \<in> set (map fst opts)")
    case False
    then have ne: "\<And>r lst. map_of opts r = Some lst \<Longrightarrow> role (snd x) \<noteq> r"
      by (metis map_of_eq_None_iff option.distinct(1) set_map)
    from Cons.IH [of opts] obtain opts' where
      o: "top_loop rest opts = Inr opts'" "map fst opts' = map fst opts"
         "\<forall>r lst. map_of opts r = Some lst \<longrightarrow>
            map_of opts' r = Some (fold add_new (map scored (filter (\<lambda>x. role (snd x) = r) rest)) lst)"
      by blast
    have "top_loop (x # rest) opts = Inr opts'" using False o(1) by simp
    moreover have "\<forall>r lst. map_of opts r = Some lst \<longrightarrow>
            map_of opts' r = Some (fold add_new (map scored (filter (\<lambda>x. role (snd x) = r) (x # rest))) lst)"
      using o(3) ne by auto
    ultimately show ?thesis using o(2) by blast
  next
    case True
    then obtain lst0 where l0: "map_of opts (role (snd x)) = Some lst0"
      by (metis map_of_eq_None_iff not_Some_eq set_map)
    show ?thesis
    proof (cases "scored x \<in> set lst0")
      case in_lst: True
      from Cons.IH [of opts] obtain opts' where
        o: "top_loop rest opts = Inr opts'" "map fst opts' = map fst opts"
           "\<forall>r lst. map_of opts r = Some lst \<longrightarrow>
              map_of opts' r = Some (fold add_new (map scored (filter (\<lambda>x. role (snd x) = r) rest)) lst)"
        by blast
      have "top_loop (x # rest) opts = Inr opts'"
        using True l0 in_lst o(1)
        by (simp add: performance_score_value getitem_Some scored_def)
      moreover have "\<forall>r lst. map_of opts r = Some lst \<longrightarrow>
            map_of opts' r = Some (fold add_new (map scored (filter (\<lambda>x. role (snd x) = r) (x # rest))) lst)"
        using o(3) l0 in_lst by (auto simp: add_new_def)
      ultimately show ?thesis using o(2) by blast
    next
      case not_in: False
      define opts1 where "opts1 = AList.update (role (snd x)) (lst0 @ [scored x]) opts"
      from Cons.IH [of opts1] obtain opts' where
        o: "top_loop rest opts1 = Inr opts'" "map fst opts' = map fst opts1"
           "\<forall>r lst. map_of opts1 r = Some lst \<longrightarrow>
              map_of opts' r = Some (fold add_new (map scored (filter (\<lambda>x. role (snd x) = r) rest)) lst)"
        by blast
      have k: "map fst opts1 = map fst opts"
        using True by (simp add: opts1_def update_keys)
      have "top_loop (x # rest) opts = Inr opts'"
        using True l0 not_in o(1)
        by (simp add: performance_score_value getitem_Some scored_def opts1_def)
      moreover have "\<forall>r lst. map_of opts r = Some lst \<longrightarrow>
            map_of opts' r = Some (fold add_new (map scored (filter (\<lambda>x. role (snd x) = r) (x # rest))) lst)"
      proof (intro allI impI)
        fix r lst assume a: "map_of opts r = Some lst"
        show "map_of opts' r = Some (fold add_new (map scored (filter (\<lambda>x. role (snd x) = r) (x # rest))) lst)"
        proof (cases "role (snd x) = r")
          case True
          with a l0 have "lst = lst0" by simp
          moreover have "map_of opts1 r = Some (lst0 @ [scored x])"
            using True by (simp add: opts1_def update_conv')
          ultimately show ?thesis using o(3) True not_in by (simp add: add_new_def)
        next
          case False
          then have "map_of opts1 r = Some lst"
            using a by (simp add: opts1_def update_conv')
          then show ?thesis using o(3) False by simp
        qed
      qed
      ultimately show ?thesis using o(2) k by auto
    qed
  qed
qed

lemma role_loop_value:
  "role_loop p mg (map fst empty_options) empty_options =
     Inr [(''Vanguard'', map scored (slice_to 3 (ranked (filter (\<lambda>(name, stats). role stats = ''Vanguard'' \<and> games_played stats \<ge> mg) (hero_stats p))))),
          (''Duelist'', map scored (slice_to 3 (ranked (filter (\<lambda>(name, stats). role stats = ''Duelist'' \<and> games_played stats \<ge> mg) (hero_stats p))))),
          (''Strategist'', map scored (slice_to 3 (ranked (filter (\<lambda>(name, stats). role stats = ''Strategist'' \<and> games_played stats \<ge> mg) (hero_stats p)))))]"
  by (simp add: empty_options_def get_best_heroes_by_role_value append_heroes_value)

lemma alist3:
  assumes "map fst al = [a, b, c]" "map_of al a = Some x" "map_of al b = Some y"
    "map_of al c = Some z" "a \<noteq> b" "a \<noteq> c" "b \<noteq> c"
  shows "al = [(a, x), (b, y), (c, z)]"
proof -
  from assms(1) obtain x' y' z' where al: "al = [(a, x'), (b, y'), (c, z')]"
    by (auto simp: map_eq_Cons_conv)
  with assms show ?thesis by auto
qed

lemma options_of_player_value:
  "options_of_player p mg =
     Inr [(''Vanguard'', option_list p mg ''Vanguard''),
          (''Duelist'', option_list p mg ''Duelist''),
          (''Strategist'', option_list p mg ''Strategist'')]"
proof -
  let ?o = "[(''Vanguard'', map scored (slice_to 3 (ranked (filter (\<lambda>(name, stats). role stats = ''Vanguard'' \<and> games_played stats \<ge> mg) (hero_stats p))))),
          (''Duelist'', map scored (slice_to 3 (ranked (filter (\<lambda>(name, stats). role stats = ''Duelist'' \<and> games_played stats \<ge> mg) (hero_stats p))))),
          (''Strategist'', map scored (slice_to 3 (ranked (filter (\<lambda>(name, stats). role stats = ''Strategist'' \<and> games_played stats \<ge> mg) (hero_stats p)))))]"
  let ?tops = "slice_to 5 (ranked (filter (\<lambda>(name, stats). games_played stats \<ge> mg) (hero_stats p)))"
  from top_loop_value [of ?tops ?o] obtain opts' where
    o: "top_loop ?tops ?o = Inr opts'" "map fst opts' = map fst ?o"
       "\<forall>r lst. map_of ?o r = Some lst \<longrightarrow>
          map_of opts' r = Some (fold add_new (map scored (filter (\<lambda>x. role (snd x) = r) ?tops)) lst)"
    by blast
  have v: "map_of opts' ''Vanguard'' = Some (option_list p mg ''Vanguard'')"
    using o(3) by (simp add: option_list_def)
  have d: "map_of opts' ''Duelist'' = Some (option_list p mg ''Duelist'')"
    using o(3) by (simp add: option_list_def)
  have s: "map_of opts' ''Strategist'' = Some (option_list p mg ''Strategist'')"
    using o(3) by (simp add: option_list_def)
  have "opts' = [(''Vanguard'', option_list p mg ''Vanguard''),
          (''Duelist'', option_list p mg ''Duelist''),
          (''Strategist'', option_list p mg ''Strategist'')]"
    by (rule alist3 [OF _ v d s]) (use o(2) in simp_all)
  then show ?thesis
    using o(1) by (simp add: options_of_player_def role_loop_value get_top_heroes_value)
qed

lemma nth_in_take_distinct:
  "distinct zs \<Longrightarrow> k < length zs \<Longrightarrow> zs ! k \<in> set (take m zs) \<longleftrightarrow> k < m"
  by (auto simp: in_set_conv_nth nth_eq_iff_index_eq)

lemma fold_add_new_take:
  "distinct zs \<Longrightarrow> fold add_new (take k zs) (take j zs) = take (max j k) zs"
proof (induction k)
  case 0
  then show ?case by simp
next
  case (Suc k)
  show ?case
  proof (cases "k < length zs")
    case True
    have "fold add_new (take (Suc k) zs) (take j zs)
          = add_new (zs ! k) (fold add_new (take k zs) (take j zs))"
      using True by (simp add: take_Suc_conv_app_nth)
    also have "\<dots> = add_new (zs ! k) (take (max j k) zs)"
      using Suc by simp
    also have "\<dots> = take (max j (Suc k)) zs"
    proof (cases "k < j")
      case lt: True
      then have "zs ! k \<in> set (take (max j k) zs)"
        using nth_in_take_distinct [OF Suc.prems True, of "max j k"] by simp
      moreover have "max j k = max j (Suc k)" using lt by simp
      ultimately show ?thesis by (simp add: add_new_def)
    next
      case ge: False
      then have "zs ! k \<notin> set (take (max j k) zs)"
        using nth_in_take_distinct [OF Suc.prems True, of "max j k"] by simp
      moreover have "max j k = k" "max j (Suc k) = Suc k" using ge by simp_all
      ultimately show ?thesis using True by (simp add: add_new_def take_Suc_conv_app_nth)
    qed
    finally show ?thesis .
  next
    case False
    then have "take (Suc k) zs = take k zs" "take (max j (Suc k)) zs = take (max j k) zs"
      by simp_all
    then show ?thesis using Suc by simp
  qed
qed

lemma filter_take_prefix:
  "filter P (take n xs) = take (length (filter P (take n xs))) (filter P xs)"
proof (induction xs arbitrary: n)
  case Nil
  then show ?case by simp
next
  case (Cons x xs)
  show ?case
  proof (cases n)
    case 0
    then show ?thesis by simp
  next
    case (Suc m)
    then show ?thesis using Cons.IH [of m] by simp
  qed
qed

lemma filter_ranked: "filter P (ranked xs) = ranked (filter P xs)"
  by (simp add: ranked_def filter_sort)

lemma distinct_fst_ranked: "distinct (map fst (ranked xs)) = distinct (map fst xs)"
  by (simp add: ranked_def distinct_map)

lemma distinct_scored: "distinct (map fst xs) \<Longrightarrow> distinct (map scored xs)"
proof -
  assume "distinct (map fst xs)"
  moreover have "map fst (map scored xs) = map fst xs" by (simp add: scored_def)
  ultimately show ?thesis by (metis distinct_map)
qed

lemma ranked_descending: "sorted_wrt (\<lambda>a b. score_of (snd a) \<ge> score_of (snd b)) (ranked xs)"
proof -
  have "sorted (map (\<lambda>x. - score_of (snd x)) (ranked xs))"
    unfolding ranked_def by (rule sorted_sort_key)
  then show ?thesis by (simp add: sorted_map)
qed

lemma top5_of_role:
  "filter (\<lambda>x. role (snd x) = r)
     (take 5 (ranked (filter (\<lambda>(name, stats). games_played stats \<ge> mg) (hero_stats p))))
   = take (top5_count p mg r)
       (ranked (filter (\<lambda>(name, stats). role stats = r \<and> games_played stats \<ge> mg) (hero_stats p)))"
proof -
  let ?G = "ranked (filter (\<lambda>(name, stats). games_played stats \<ge> mg) (hero_stats p))"
  have "filter (\<lambda>x. role (snd x) = r) (take 5 ?G)
        = take (top5_count p mg r) (filter (\<lambda>x. role (snd x) = r) ?G)"
    unfolding top5_count_def by (rule filter_take_prefix)
  also have "filter (\<lambda>x. role (snd x) = r) ?G
        = ranked (filter (\<lambda>(name, stats). role stats = r \<and> games_played stats \<ge> mg) (hero_stats p))"
    by (simp add: filter_ranked case_prod_unfold conj_commute)
  finally show ?thesis .
qed

lemma slice_to_numeral [simp]: "slice_to (numeral n) xs = take (numeral n) xs"
  by (simp add: slice_to_def)

lemma option_list_prefix:
  assumes "distinct (map fst (hero_stats p))"
  shows "option_list p mg r =
     map scored (take (max 3 (top5_count p mg r))
       (ranked (filter (\<lambda>(name, stats). role stats = r \<and> games_played stats \<ge> mg) (hero_stats p))))"
proof -
  let ?RS = "ranked (filter (\<lambda>(name, stats). role stats = r \<and> games_played stats \<ge> mg) (hero_stats p))"
  have d: "distinct (map scored ?RS)"
    by (rule distinct_scored) (simp add: distinct_fst_ranked distinct_map_filter assms)
  have "option_list p mg r
        = fold add_new (take (top5_count p mg r) (map scored ?RS)) (take 3 (map scored ?RS))"
    by (simp add: option_list_def top5_of_role take_map)
  also have "\<dots> = take (max 3 (top5_count p mg r)) (map scored ?RS)"
    by (rule fold_add_new_take [OF d])
  finally show ?thesis by (simp add: take_map)
qed

lemma build_player_options_value:
  "build_player_options ps mg po =
     Inr (fold (\<lambda>p. AList.update (player_name p) (options_value p mg)) ps po)"
  by (induction ps arbitrary: po) (simp_all add: options_of_player_value options_value_def)

lemma map_of_fold_update_other:
  "n \<notin> set (map player_name ps) \<Longrightarrow>
   map_of (fold (\<lambda>p. AList.update (player_name p) (f p)) ps po) n = map_of po n"
  by (induction ps arbitrary: po) (simp_all add: update_conv')

lemma map_of_fold_update_last:
  "player_name p \<notin> set (map player_name after) \<Longrightarrow>
   map_of (fold (\<lambda>p. AList.update (player_name p) (f p)) (before @ p # after) po) (player_name p)
   = Some (f p)"
  by (simp add: map_of_fold_update_other update_conv')

lemma set_take_max: "set (take (max a b) xs) = set (take a xs) \<union> set (take b xs)"
proof (cases "a \<le> b")
  case True
  then show ?thesis using set_take_subset_set_take [of a b xs] by (auto simp: max_def)
next
  case False
  then show ?thesis using set_take_subset_set_take [of b a xs] by (auto simp: max_def)
qed

section \<open>The search, as a value\<close>

lemma best_available_find:
  "best_available options used =
     (case find (\<lambda>hs. fst hs \<notin> used) options of
        None \<Rightarrow> (None, 0) | Some hs \<Rightarrow> (Some (fst hs), snd hs))"
  by (induction options) auto

lemma getitem_options_for:
  "map_of po pn = Some by_role \<Longrightarrow> map_of by_role r = Some l \<Longrightarrow>
   bind_res (getitem po pn) (\<lambda>b. bind_res (getitem b r) f) = f (options_for po pn r)"
  by (simp add: getitem_def options_for_def)

lemma player_loop_first_fit:
  assumes "options_complete po names (drop i ra)"
  shows "case first_fit po (zip names (drop i ra)) (used_heroes st) of
           None \<Rightarrow> (\<exists>st'. player_loop po ra i names st = Inr st' \<and> \<not> valid st')
         | Some chosen \<Rightarrow>
             if length names \<le> length (drop i ra)
             then player_loop po ra i names st =
                    Inr (st\<lparr>assignment := fold record_pick chosen (assignment st),
                            used_heroes := used_heroes st \<union> set (map pick_hero chosen),
                            total_score := total_score st + sum_list (map pick_score chosen)\<rparr>)
             else player_loop po ra i names st = Inl IndexError"
  using assms
proof (induction names arbitrary: i st)
  case Nil
  then show ?case by simp
next
  case (Cons pn rest)
  show ?case
  proof (cases "i < length ra")
    case False
    then show ?thesis by (simp add: subscript_def)
  next
    case True
    then have d: "drop i ra = ra ! i # drop (Suc i) ra"
      by (simp add: Cons_nth_drop_Suc)
    from Cons.prems d obtain by_role l where
      k: "map_of po pn = Some by_role" "map_of by_role (ra ! i) = Some l"
      by (auto simp: options_complete_def)
    have c: "options_complete po rest (drop (Suc i) ra)"
      using Cons.prems d by (auto simp: options_complete_def)
    have sub: "subscript ra i = Inr (ra ! i)" using True by (simp add: subscript_def)
    let ?opts = "options_for po pn (ra ! i)"
    show ?thesis
    proof (cases "find (\<lambda>hs. fst hs \<notin> used_heroes st) ?opts")
      case None
      then show ?thesis
        using d by (simp add: sub getitem_options_for [OF k] best_available_find)
    next
      case (Some hs)
      let ?st1 = "st\<lparr>assignment := AList.update pn (fst hs, ra ! i) (assignment st),
                     used_heroes := insert (fst hs) (used_heroes st),
                     total_score := total_score st + snd hs\<rparr>"
      have step: "player_loop po ra i (pn # rest) st = player_loop po ra (Suc i) rest ?st1"
        using Some by (simp add: sub getitem_options_for [OF k] best_available_find)
      have ff: "first_fit po (zip (pn # rest) (drop i ra)) (used_heroes st)
                = map_option ((#) (pn, ra ! i, fst hs, snd hs))
                    (first_fit po (zip rest (drop (Suc i) ra)) (used_heroes ?st1))"
        using Some d by simp
      show ?thesis
      proof (cases "first_fit po (zip rest (drop (Suc i) ra)) (used_heroes ?st1)")
        case None
        then show ?thesis
          using Cons.IH [OF c, of ?st1] step ff by simp
      next
        case (Some chosen)
        have len: "length (pn # rest) \<le> length (drop i ra)
                   \<longleftrightarrow> length rest \<le> length (drop (Suc i) ra)"
          using True by auto
        show ?thesis
        proof (cases "length rest \<le> length (drop (Suc i) ra)")
          case le: True
          then have "player_loop po ra (Suc i) rest ?st1 =
                    Inr (?st1\<lparr>assignment := fold record_pick chosen (assignment ?st1),
                            used_heroes := used_heroes ?st1 \<union> set (map pick_hero chosen),
                            total_score := total_score ?st1 + sum_list (map pick_score chosen)\<rparr>)"
            using Cons.IH [OF c, of ?st1] Some by simp
          then show ?thesis
            using le len step ff Some
            by (simp add: record_pick_def pick_hero_def pick_score_def add.assoc)
        next
          case gt: False
          then have "player_loop po ra (Suc i) rest ?st1 = Inl IndexError"
            using Cons.IH [OF c, of ?st1] Some by simp
          then show ?thesis
            using gt len step ff Some by simp
        qed
      qed
    qed
  qed
qed

lemma attempt_first_fit:
  assumes "options_complete po names ra"
  shows "case first_fit po (zip names ra) {} of
           None \<Rightarrow> (\<exists>st'. player_loop po ra 0 names init_state = Inr st' \<and> \<not> valid st')
         | Some chosen \<Rightarrow>
             if length names \<le> length ra
             then \<exists>st'. player_loop po ra 0 names init_state = Inr st' \<and> valid st' \<and>
                    (total_score st', assignment st') = candidate_of chosen
             else player_loop po ra 0 names init_state = Inl IndexError"
proof -
  have c: "options_complete po names (drop 0 ra)" using assms by simp
  show ?thesis
    using player_loop_first_fit [OF c, of init_state]
    by (auto simp: init_state_def candidate_of_def split: option.splits)
qed

lemma valid_candidates_Cons:
  "valid_candidates po names (ra # ras) =
     (case first_fit po (zip names ra) {} of
        None \<Rightarrow> valid_candidates po names ras
      | Some chosen \<Rightarrow> candidate_of chosen # valid_candidates po names ras)"
  by (simp add: valid_candidates_def List.map_filter_simps split: option.splits)

lemma valid_candidates_Nil [simp]: "valid_candidates po names [] = []"
  by (simp add: valid_candidates_def List.map_filter_simps)

lemma overflow_Cons:
  "overflow po names (ra # ras) \<longleftrightarrow>
     (length ra < length names \<and> first_fit po (zip names ra) {} \<noteq> None) \<or> overflow po names ras"
  by (simp add: overflow_def)

lemma overflow_Nil [simp]: "\<not> overflow po names []"
  by (simp add: overflow_def)

lemma ordering_loop_value:
  assumes "\<forall>ra \<in> set ras. options_complete po names ra"
  shows "ordering_loop po names ras results =
           (if overflow po names ras then Inl IndexError
            else Inr (results @ valid_candidates po names ras))"
  using assms
proof (induction ras arbitrary: results)
  case Nil
  then show ?case by simp
next
  case (Cons ra ras)
  have c: "options_complete po names ra" using Cons.prems by simp
  have rest: "\<forall>ra \<in> set ras. options_complete po names ra" using Cons.prems by simp
  note IH = Cons.IH [OF rest]
  show ?case
  proof (cases "first_fit po (zip names ra) {}")
    case None
    then obtain st' where "player_loop po ra 0 names init_state = Inr st'" "\<not> valid st'"
      using attempt_first_fit [OF c] by auto
    then show ?thesis
      using None IH by (simp add: valid_candidates_Cons overflow_Cons)
  next
    case (Some chosen)
    show ?thesis
    proof (cases "length names \<le> length ra")
      case True
      then obtain st' where "player_loop po ra 0 names init_state = Inr st'" "valid st'"
        "(total_score st', assignment st') = candidate_of chosen"
        using attempt_first_fit [OF c] Some by auto
      then show ?thesis
        using Some True IH by (simp add: valid_candidates_Cons overflow_Cons)
    next
      case False
      then have "player_loop po ra 0 names init_state = Inl IndexError"
        using attempt_first_fit [OF c] Some by auto
      then show ?thesis
        using Some False by (simp add: overflow_Cons)
    qed
  qed
qed

lemma picks_mset: "yr \<in> set (picks xs) \<Longrightarrow> mset xs = add_mset (fst yr) (mset (snd yr))"
  by (induction xs arbitrary: yr) auto

lemma picks_complete: "y \<in> set xs \<Longrightarrow> \<exists>ys. (y, ys) \<in> set (picks xs)"
proof (induction xs)
  case Nil
  then show ?case by simp
next
  case (Cons x xs)
  show ?case
  proof (cases "y = x")
    case True
    then show ?thesis by auto
  next
    case False
    with Cons obtain ys where "(y, ys) \<in> set (picks xs)" by auto
    then have "(y, x # ys) \<in> set (picks (x # xs))" by force
    then show ?thesis by blast
  qed
qed

lemma set_permutations_Cons:
  "set (permutations (x # xs)) =
     (\<Union>yr \<in> set (picks (x # xs)). (#) (fst yr) ` set (permutations (snd yr)))"
  by (simp only: permutations.simps set_concat set_map image_image)

lemma perm_nil: "zs \<in> set (permutations []) \<longleftrightarrow> mset zs = mset []"
  by simp

lemma perm_step1:
  assumes IH: "\<And>yr zs. yr \<in> set (picks (x # xs)) \<Longrightarrow>
            zs \<in> set (permutations (snd yr)) \<longleftrightarrow> mset zs = mset (snd yr)"
    and "zs \<in> set (permutations (x # xs))"
  shows "mset zs = mset (x # xs)"
proof -
  from assms(2) obtain yr zs' where yr: "yr \<in> set (picks (x # xs))"
      "zs' \<in> set (permutations (snd yr))" "zs = fst yr # zs'"
      unfolding set_permutations_Cons by blast
  then have "mset zs' = mset (snd yr)" using IH by blast
  then show "mset zs = mset (x # xs)"
    using picks_mset [OF yr(1)] unfolding yr(3) by (simp only: mset.simps)
qed

lemma perm_step2:
  assumes IH: "\<And>yr zs. yr \<in> set (picks (x # xs)) \<Longrightarrow>
            zs \<in> set (permutations (snd yr)) \<longleftrightarrow> mset zs = mset (snd yr)"
    and m: "mset zs = mset (x # xs)"
  shows "zs \<in> set (permutations (x # xs))"
proof -
  have "zs \<noteq> []"
  proof
    assume "zs = []"
    then have "size (mset zs) = 0" by simp
    then show False unfolding m by simp
  qed
  then obtain z zs' where zs: "zs = z # zs'" by (cases zs) blast+
  have "z \<in> set zs" unfolding zs by simp
  then have "z \<in> set (x # xs)" using m mset_eq_setD by blast
  then have "\<exists>ys. (z, ys) \<in> set (picks (x # xs))" by (rule picks_complete)
  then obtain ys where ys: "(z, ys) \<in> set (picks (x # xs))" ..
  have e: "mset (x # xs) = add_mset z (mset ys)"
    using picks_mset [OF ys] by (simp only: fst_conv snd_conv)
  have "add_mset z (mset zs') = mset zs" unfolding zs by (simp only: mset.simps)
  also have "\<dots> = add_mset z (mset ys)" using m e by (rule trans)
  finally have "mset zs' = mset ys" by (simp only: add_mset_add_mset_same_iff)
  then have "zs' \<in> set (permutations (snd (z, ys)))" using IH [OF ys] by (simp only: snd_conv)
  then have "fst (z, ys) # zs' \<in> (#) (fst (z, ys)) ` set (permutations (snd (z, ys)))"
    by (rule imageI)
  then have "zs \<in> (#) (fst (z, ys)) ` set (permutations (snd (z, ys)))"
    unfolding zs by (simp only: fst_conv)
  with ys have "zs \<in> (\<Union>yr \<in> set (picks (x # xs)). (#) (fst yr) ` set (permutations (snd yr)))"
    by (rule UN_I)
  then show ?thesis by (simp only: set_permutations_Cons)
qed

lemma permutations_mset: "zs \<in> set (permutations xs) \<longleftrightarrow> mset zs = mset xs"
proof (induction xs arbitrary: zs rule: permutations.induct)
  case 1
  show ?case by (rule perm_nil)
next
  case (2 x xs)
  show ?case
  proof
    assume "zs \<in> set (permutations (x # xs))"
    with "2.IH" show "mset zs = mset (x # xs)" by (rule perm_step1)
  next
    assume "mset zs = mset (x # xs)"
    with "2.IH" show "zs \<in> set (permutations (x # xs))" by (rule perm_step2)
  qed
qed

lemma orderings_set:
  "set_order it \<Longrightarrow> set (orderings it t) = {zs. mset zs = mset (roles_needed t)}"
  by (auto simp: orderings_def set_order_def permutations_mset)

lemma orderings_distinct: "set_order it \<Longrightarrow> distinct (orderings it t)"
  by (simp add: orderings_def set_order_def)

lemma ordering_length:
  "set_order it \<Longrightarrow> ra \<in> set (orderings it t) \<Longrightarrow> length ra = length (roles_needed t)"
  using orderings_set [of it t] by (auto dest: mset_eq_length)

lemma ordering_roles:
  "set_order it \<Longrightarrow> ra \<in> set (orderings it t) \<Longrightarrow> set ra = set (roles_needed t)"
  using orderings_set [of it t] by (auto dest: mset_eq_setD)

lemma find_best_assignment_value:
  assumes "set_order it" "options_complete po (map player_name players) (roles_needed t)"
  shows "find_best_assignment it players po t =
           (if overflow po (map player_name players) (orderings it t) then Inl IndexError
            else Inr (valid_candidates po (map player_name players) (orderings it t)))"
proof -
  have "\<forall>ra \<in> set (orderings it t). options_complete po (map player_name players) ra"
    using assms ordering_roles [OF assms(1)] by (simp add: options_complete_def)
  from ordering_loop_value [OF this, of "[]"] show ?thesis
    by (simp add: find_best_assignment_def orderings_def)
qed

section \<open>No hero twice: the invariant of the player loop\<close>

lemma heroes_update_subset:
  "set (map hero_of (AList.update pn (h, r) a)) \<subseteq> insert h (set (map hero_of a))"
  by (induction a) (auto simp: hero_of_def)

lemma heroes_update_distinct:
  "distinct (map hero_of a) \<Longrightarrow> h \<notin> set (map hero_of a) \<Longrightarrow>
   distinct (map hero_of (AList.update pn (h, r) a))"
proof (induction a)
  case Nil
  then show ?case by simp
next
  case (Cons e a)
  show ?case
  proof (cases "fst e = pn")
    case True
    then show ?thesis using Cons.prems by (auto simp: hero_of_def)
  next
    case False
    have "hero_of e \<notin> set (map hero_of (AList.update pn (h, r) a))"
      using heroes_update_subset [of pn h r a] Cons.prems by auto
    then show ?thesis using False Cons by auto
  qed
qed

lemma best_available_unused:
  "best_available options used = (Some h, s) \<Longrightarrow> h \<notin> used"
  by (induction options) (auto split: if_splits)

lemma state_ok_step:
  assumes "state_ok st" "h \<notin> used_heroes st"
  shows "state_ok (st\<lparr>assignment := AList.update pn (h, r) (assignment st),
                     used_heroes := insert h (used_heroes st),
                     total_score := total_score st + s\<rparr>)"
proof -
  have "h \<notin> set (map hero_of (assignment st))" using assms by (auto simp: state_ok_def)
  then show ?thesis
    using assms heroes_update_subset [of pn h r "assignment st"]
    by (auto simp: state_ok_def no_hero_twice_def distinct_update heroes_update_distinct)
qed

lemma player_loop_state_ok:
  "player_loop po ra i names st = Inr st' \<Longrightarrow> state_ok st \<Longrightarrow> state_ok st'"
proof (induction names arbitrary: i st)
  case Nil
  then show ?case by simp
next
  case (Cons pn rest)
  from Cons.prems(1) obtain r by_role options where
    l: "subscript ra i = Inr r" "getitem po pn = Inr by_role" "getitem by_role r = Inr options"
    by (auto simp: bind_res_def split: sum.splits)
  show ?case
  proof (cases "best_available options (used_heroes st)")
    case (Pair bh bs)
    show ?thesis
    proof (cases bh)
      case None
      then have "st' = st\<lparr>valid := False\<rparr>" using Cons.prems(1) l Pair by simp
      then show ?thesis using Cons.prems(2) by (simp add: state_ok_def)
    next
      case (Some h)
      let ?st1 = "st\<lparr>assignment := AList.update pn (h, r) (assignment st),
                     used_heroes := insert h (used_heroes st),
                     total_score := total_score st + bs\<rparr>"
      have "player_loop po ra (Suc i) rest ?st1 = Inr st'"
        using Cons.prems(1) l Pair Some by simp
      moreover have "state_ok ?st1"
        using Cons.prems(2) best_available_unused Pair Some by (intro state_ok_step) auto
      ultimately show ?thesis by (rule Cons.IH)
    qed
  qed
qed

lemma init_state_ok: "state_ok init_state"
  by (simp add: state_ok_def init_state_def no_hero_twice_def)

lemma ordering_loop_no_hero_twice:
  "ordering_loop po names ras results = Inr rs \<Longrightarrow>
   \<forall>c \<in> set results. no_hero_twice (snd c) \<Longrightarrow> \<forall>c \<in> set rs. no_hero_twice (snd c)"
proof (induction ras arbitrary: results)
  case Nil
  then show ?case by simp
next
  case (Cons ra ras)
  from Cons.prems(1) obtain st where
    st: "player_loop po ra 0 names init_state = Inr st"
    by (auto simp: bind_res_def split: sum.splits)
  then have ok: "state_ok st" using init_state_ok by (rule player_loop_state_ok)
  let ?results = "if valid st then results @ [(total_score st, assignment st)] else results"
  have "ordering_loop po names ras ?results = Inr rs" using Cons.prems(1) st by simp
  moreover have "\<forall>c \<in> set ?results. no_hero_twice (snd c)"
    using Cons.prems(2) ok by (auto simp: state_ok_def)
  ultimately show ?case by (rule Cons.IH)
qed

lemma find_best_assignment_no_hero_twice:
  "find_best_assignment it players po t = Inr rs \<Longrightarrow> \<forall>c \<in> set rs. no_hero_twice (snd c)"
  unfolding find_best_assignment_def by (erule ordering_loop_no_hero_twice) simp

lemma target_loop_no_hero_twice:
  "target_loop it players po ts comps = Inr rs \<Longrightarrow>
   \<forall>c \<in> set comps. no_hero_twice (snd c) \<Longrightarrow> \<forall>c \<in> set rs. no_hero_twice (snd c)"
proof (induction ts arbitrary: comps)
  case Nil
  then show ?case by simp
next
  case (Cons t ts)
  from Cons.prems(1) obtain cr where
    cr: "find_best_assignment it players po t = Inr cr"
    by (auto simp: bind_res_def split: sum.splits)
  have "target_loop it players po ts (comps @ cr) = Inr rs" using Cons.prems(1) cr by simp
  moreover have "\<forall>c \<in> set (comps @ cr). no_hero_twice (snd c)"
    using Cons.prems(2) find_best_assignment_no_hero_twice [OF cr] by auto
  ultimately show ?case by (rule Cons.IH)
qed

lemma set_slice_to: "set (slice_to n xs) \<subseteq> set xs"
  by (auto simp: slice_to_def dest: in_set_takeD)

lemma all_compositions_no_hero_twice:
  "all_compositions it players mg = Inr pool \<Longrightarrow> \<forall>c \<in> set pool. no_hero_twice (snd c)"
  unfolding all_compositions_def
  by (auto simp: bind_res_def split: sum.splits dest!: target_loop_no_hero_twice)

section \<open>The whole search, as a value\<close>

lemma map_of_fold_update_some:
  "pn \<in> set (map player_name ps) \<Longrightarrow>
   \<exists>q. map_of (fold (\<lambda>p. AList.update (player_name p) (f p)) ps po) pn = Some (f q)"
proof (induction ps arbitrary: po)
  case Nil
  then show ?case by simp
next
  case (Cons p ps)
  show ?case
  proof (cases "pn \<in> set (map player_name ps)")
    case True
    then show ?thesis using Cons.IH by simp
  next
    case False
    then have "pn = player_name p" using Cons.prems by simp
    then show ?thesis using False by (auto simp: map_of_fold_update_other update_conv')
  qed
qed

lemma built_options_complete:
  assumes "set roles \<subseteq> {''Vanguard'', ''Duelist'', ''Strategist''}"
  shows "options_complete (built_options players mg) (map player_name players) roles"
  unfolding options_complete_def
proof
  fix pn assume "pn \<in> set (map player_name players)"
  then obtain q where "map_of (built_options players mg) pn = Some (options_value q mg)"
    unfolding built_options_def
    using map_of_fold_update_some [of pn players "\<lambda>p. options_value p mg" "[]"] by blast
  moreover have "\<forall>r \<in> set roles. \<exists>l. map_of (options_value q mg) r = Some l"
    using assms by (auto simp: options_value_def)
  ultimately show "\<exists>by_role. map_of (built_options players mg) pn = Some by_role \<and>
        (\<forall>r \<in> set roles. \<exists>l. map_of by_role r = Some l)" by blast
qed

lemma target_roles:
  "t \<in> set target_comps \<Longrightarrow>
   length (roles_needed t) = 5 \<and> set (roles_needed t) \<subseteq> {''Vanguard'', ''Duelist'', ''Strategist''}"
  by (auto simp: target_comps_def eval_nat_numeral)

lemma target_loop_value:
  assumes "\<And>t. t \<in> set ts \<Longrightarrow>
     find_best_assignment it players po t =
       (if overflow po names (orderings it t) then Inl IndexError
        else Inr (valid_candidates po names (orderings it t)))"
  shows "target_loop it players po ts comps =
     (if \<exists>t \<in> set ts. overflow po names (orderings it t) then Inl IndexError
      else Inr (comps @ concat (map (\<lambda>t. valid_candidates po names (orderings it t)) ts)))"
  using assms
proof (induction ts arbitrary: comps)
  case Nil
  then show ?case by simp
next
  case (Cons t ts)
  have h: "find_best_assignment it players po t =
       (if overflow po names (orderings it t) then Inl IndexError
        else Inr (valid_candidates po names (orderings it t)))"
    using Cons.prems by simp
  have IH: "\<And>comps. target_loop it players po ts comps =
     (if \<exists>t \<in> set ts. overflow po names (orderings it t) then Inl IndexError
      else Inr (comps @ concat (map (\<lambda>t. valid_candidates po names (orderings it t)) ts)))"
    using Cons.IH Cons.prems by simp
  show ?case by (simp add: h IH)
qed

lemma all_compositions_value:
  assumes "set_order it"
  shows "all_compositions it players mg =
     (if any_overflow it players mg then Inl IndexError else Inr (pool_of it players mg))"
proof -
  have "\<And>t. t \<in> set target_comps \<Longrightarrow>
     find_best_assignment it players (built_options players mg) t =
       (if overflow (built_options players mg) (map player_name players) (orderings it t)
        then Inl IndexError
        else Inr (valid_candidates (built_options players mg) (map player_name players)
                    (orderings it t)))"
    using assms built_options_complete target_roles
    by (intro find_best_assignment_value) auto
  from target_loop_value [OF this, of target_comps "[]"] show ?thesis
    by (simp add: all_compositions_def build_player_options_value built_options_def [symmetric]
          any_overflow_def pool_of_def)
qed

lemma any_overflow_players:
  assumes "set_order it"
  shows "any_overflow it players mg \<longleftrightarrow>
     5 < length players \<and>
     (\<exists>t \<in> set target_comps. \<exists>ra \<in> set (permutations (roles_needed t)).
        first_fit (built_options players mg) (zip (map player_name players) ra) {} \<noteq> None)"
proof -
  have len: "\<And>t ra. t \<in> set target_comps \<Longrightarrow> ra \<in> set (orderings it t) \<Longrightarrow> length ra = 5"
    using ordering_length [OF assms] target_roles by simp
  have s: "\<And>t. set (orderings it t) = set (permutations (roles_needed t))"
    using assms by (simp add: orderings_def set_order_def)
  show ?thesis
    unfolding any_overflow_def overflow_def
    using len s by auto
qed

lemma find_optimal_compositions_value:
  assumes "set_order it"
  shows "find_optimal_compositions it players mg top_n =
     (if any_overflow it players mg then Inl IndexError
      else Inr (slice_to top_n (sort_key (\<lambda>c. - fst c) (pool_of it players mg))))"
  by (simp add: find_optimal_compositions_def all_compositions_value [OF assms])

lemma first_fit_no_options:
  assumes "names \<noteq> []" "ra \<noteq> []" "\<And>r. options_for po (hd names) r = []"
  shows "first_fit po (zip names ra) used = None"
proof -
  obtain n ns where n: "names = n # ns" using assms(1) by (cases names) auto
  obtain r rs where r: "ra = r # rs" using assms(2) by (cases ra) auto
  show ?thesis using assms(3) [of r] by (simp add: n r)
qed

lemma valid_candidates_none:
  "(\<And>ra. ra \<in> set ras \<Longrightarrow> first_fit po (zip names ra) {} = None) \<Longrightarrow>
   valid_candidates po names ras = []"
  by (induction ras) (simp_all add: valid_candidates_Cons)

lemma valid_candidates_member:
  "ra \<in> set ras \<Longrightarrow> first_fit po (zip names ra) {} = Some chosen \<Longrightarrow>
   candidate_of chosen \<in> set (valid_candidates po names ras)"
  by (induction ras) (auto simp: valid_candidates_Cons split: option.splits)

lemma valid_candidates_set:
  "set (valid_candidates po names ras) =
     {candidate_of chosen | chosen ra. ra \<in> set ras \<and> first_fit po (zip names ra) {} = Some chosen}"
  by (induction ras) (auto simp: valid_candidates_Cons split: option.splits)

lemma ordering_member:
  "set_order it \<Longrightarrow> mset ra = mset (roles_needed t) \<Longrightarrow> ra \<in> set (orderings it t)"
  by (simp add: orderings_set)

lemma target_ordering_length:
  "set_order it \<Longrightarrow> t \<in> set target_comps \<Longrightarrow> ra \<in> set (orderings it t) \<Longrightarrow> length ra = 5"
  using ordering_length target_roles by simp

lemma no_overflow_small:
  "set_order it \<Longrightarrow> length players \<le> 5 \<Longrightarrow> \<not> any_overflow it players mg"
  by (simp add: any_overflow_players)

lemma first_fit_length:
  "first_fit po prs used = Some chosen \<Longrightarrow> map fst chosen = map fst prs"
proof (induction prs arbitrary: used chosen)
  case Nil
  then show ?case by simp
next
  case (Cons pr prs)
  then show ?case by (auto split: option.splits)
qed

lemma length_fold_record_pick:
  "length (fold record_pick chosen a) \<le> length a + length chosen"
proof (induction chosen arbitrary: a)
  case Nil
  then show ?case by simp
next
  case (Cons k chosen)
  have "length (record_pick k a) \<le> Suc (length a)"
    unfolding record_pick_def by (induction a) auto
  then show ?case using Cons [of "record_pick k a"] by simp
qed

lemma candidate_length:
  assumes "first_fit po (zip names ra) used = Some chosen"
  shows "length (snd (candidate_of chosen)) \<le> length names"
proof -
  have "length chosen = length (zip names ra)"
    using first_fit_length [OF assms] by (metis length_map)
  then have "length chosen \<le> length names" by simp
  then show ?thesis
    using length_fold_record_pick [of chosen "[]"] by (simp add: candidate_of_def)
qed

lemma pool_candidate_length:
  "c \<in> set (pool_of it players mg) \<Longrightarrow> length (snd c) \<le> length players"
  by (auto simp: pool_of_def valid_candidates_set dest: candidate_length)

lemma valid_candidates_step:
  "valid_candidates po names (ra # ras) =
     (case first_fit po (zip names ra) {} of None \<Rightarrow> [] | Some chosen \<Rightarrow> [candidate_of chosen])
     @ valid_candidates po names ras"
  by (simp add: valid_candidates_Cons split: option.splits)

lemma overflow_candidates:
  "overflow po names ras \<Longrightarrow> valid_candidates po names ras \<noteq> []"
  by (auto simp: overflow_def dest: valid_candidates_member)

lemma any_overflow_pool: "any_overflow it players mg \<Longrightarrow> pool_of it players mg \<noteq> []"
  by (auto simp: any_overflow_def pool_of_def dest: overflow_candidates)

lemma template_results:
  assumes "set_order it" "length players \<le> 5" "t \<in> set target_comps"
  shows "find_best_assignment it players (built_options players mg) t =
           Inr (valid_candidates (built_options players mg) (map player_name players)
                  (orderings it t))"
proof -
  have c: "options_complete (built_options players mg) (map player_name players) (roles_needed t)"
    using target_roles [OF assms(3)] by (intro built_options_complete) simp
  have "\<not> overflow (built_options players mg) (map player_name players) (orderings it t)"
    using assms target_ordering_length [OF assms(1,3)] by (auto simp: overflow_def)
  then show ?thesis using find_best_assignment_value [OF assms(1) c] by simp
qed

lemma pool_candidate_length_sorted:
  "c \<in> set (slice_to n (sort_key f (pool_of it players mg))) \<Longrightarrow>
   length (snd c) \<le> length players"
  using set_slice_to [of n "sort_key f (pool_of it players mg)"]
  by (auto dest: pool_candidate_length)

lemma target_loop_five:
  "target_loop it players po [t0, t1, t2, t3, t4] [] = Inr pool \<Longrightarrow>
   \<exists>c0 c1 c2 c3 c4.
     find_best_assignment it players po t0 = Inr c0 \<and>
     find_best_assignment it players po t1 = Inr c1 \<and>
     find_best_assignment it players po t2 = Inr c2 \<and>
     find_best_assignment it players po t3 = Inr c3 \<and>
     find_best_assignment it players po t4 = Inr c4 \<and>
     pool = c0 @ c1 @ c2 @ c3 @ c4"
  by (auto simp: bind_res_def split: sum.splits)

lemma map_of_fold_update_cases:
  "map_of (fold (\<lambda>p. AList.update (player_name p) (f p)) ps po) n = Some v \<Longrightarrow>
   map_of po n = Some v \<or> (\<exists>q \<in> set ps. v = f q)"
proof (induction ps arbitrary: po)
  case Nil
  then show ?case by simp
next
  case (Cons p ps)
  from Cons.IH [of "AList.update (player_name p) (f p) po"] Cons.prems
  have "map_of (AList.update (player_name p) (f p) po) n = Some v \<or> (\<exists>q \<in> set ps. v = f q)"
    by simp
  then show ?case by (auto simp: update_conv' split: if_splits)
qed

lemma no_heroes_options:
  "hero_stats p = [] \<Longrightarrow>
   options_value p mg = [(''Vanguard'', []), (''Duelist'', []), (''Strategist'', [])]"
  by (simp add: options_value_def option_list_def ranked_def slice_to_def)

lemma no_heroes_options_for:
  assumes "\<forall>p \<in> set players. hero_stats p = []"
  shows "options_for (built_options players mg) n r = []"
proof (cases "map_of (built_options players mg) n")
  case None
  then show ?thesis by (simp add: options_for_def)
next
  case (Some v)
  then obtain q where "q \<in> set players" "v = options_value q mg"
    unfolding built_options_def using map_of_fold_update_cases [of "\<lambda>p. options_value p mg"]
    by fastforce
  then have "v = [(''Vanguard'', []), (''Duelist'', []), (''Strategist'', [])]"
    using assms no_heroes_options by simp
  then show ?thesis using Some by (simp add: options_for_def)
qed

lemma no_heroes_pool:
  assumes "set_order it" "players \<noteq> []" "\<forall>p \<in> set players. hero_stats p = []"
  shows "pool_of it players mg = []"
proof -
  have "valid_candidates (built_options players mg) (map player_name players) (orderings it t) = []"
    if t: "t \<in> set target_comps" for t
  proof (rule valid_candidates_none)
    fix ra assume "ra \<in> set (orderings it t)"
    then have "length ra = 5" by (rule target_ordering_length [OF assms(1) t])
    then have "ra \<noteq> []" by auto
    then show "first_fit (built_options players mg) (zip (map player_name players) ra) {} = None"
      using assms(2) no_heroes_options_for [OF assms(3)]
      by (intro first_fit_no_options) simp_all
  qed
  then show ?thesis by (simp add: pool_of_def)
qed

lemma no_heroes_result:
  assumes "set_order it" "players \<noteq> []" "\<forall>p \<in> set players. hero_stats p = []"
  shows "find_optimal_compositions it players mg top_n = Inr []"
  using no_heroes_pool [OF assms] any_overflow_pool [of it players mg]
  by (auto simp: find_optimal_compositions_value [OF assms(1)] slice_to_def)

section \<open>Counting the distinct orderings\<close>

lemma arrangements_permutations: "arrangements (mset xs) = set (permutations xs)"
  by (auto simp: arrangements_def permutations_mset)

lemma finite_arrangements: "finite (arrangements M)"
proof -
  obtain xs where "M = mset xs" using ex_mset by metis
  then show ?thesis by (simp add: arrangements_permutations)
qed

lemma arrangements_empty: "arrangements {#} = {[]}"
  by (auto simp: arrangements_def)

lemma arrangements_step:
  assumes "M \<noteq> {#}"
  shows "arrangements M = (\<Union>x \<in> set_mset M. (#) x ` arrangements (M - {#x#}))"
proof (intro equalityI subsetI)
  fix zs assume "zs \<in> arrangements M"
  then have m: "mset zs = M" by (simp add: arrangements_def)
  with assms obtain z zs' where zs: "zs = z # zs'" by (cases zs) auto
  then have "z \<in># M" "mset zs' = M - {#z#}" using m by auto
  then show "zs \<in> (\<Union>x \<in> set_mset M. (#) x ` arrangements (M - {#x#}))"
    using zs by (auto simp: arrangements_def)
next
  fix zs assume "zs \<in> (\<Union>x \<in> set_mset M. (#) x ` arrangements (M - {#x#}))"
  then obtain x zs' where "x \<in># M" "mset zs' = M - {#x#}" "zs = x # zs'"
    by (auto simp: arrangements_def)
  then show "zs \<in> arrangements M" by (simp add: arrangements_def)
qed

lemma card_arrangements_step:
  assumes "M \<noteq> {#}"
  shows "card (arrangements M) = (\<Sum>x \<in> set_mset M. card (arrangements (M - {#x#})))"
proof -
  have "card (arrangements M)
        = card (\<Union>x \<in> set_mset M. (#) x ` arrangements (M - {#x#}))"
    by (simp only: arrangements_step [OF assms])
  also have "\<dots> = (\<Sum>x \<in> set_mset M. card ((#) x ` arrangements (M - {#x#})))"
    by (rule card_UN_disjoint) (auto simp: finite_arrangements)
  also have "\<dots> = (\<Sum>x \<in> set_mset M. card (arrangements (M - {#x#})))"
    by (intro sum.cong refl card_image) simp
  finally show ?thesis .
qed

lemma repeat_factor_step:
  assumes "x \<in># M"
  shows "repeat_factor M = count M x * repeat_factor (M - {#x#})"
proof -
  let ?N = "M - {#x#}"
  let ?rest = "\<Prod>y \<in> set_mset M - {x}. fact (count M y) :: nat"
  have "0 < count M x" using assms by simp
  then obtain k where k: "count M x = Suc k" by (cases "count M x") simp_all
  then have k': "count ?N x = k" by simp
  have "repeat_factor M = fact (count M x) * ?rest"
    unfolding repeat_factor_def by (rule prod.remove) (use assms in simp_all)
  moreover have "repeat_factor ?N = fact (count ?N x) * ?rest"
  proof -
    have "repeat_factor ?N = (\<Prod>y \<in> set_mset M. fact (count ?N y))"
      unfolding repeat_factor_def
    proof (rule prod.mono_neutral_left)
      show "finite (set_mset M)" by simp
      show "set_mset ?N \<subseteq> set_mset M" by (rule set_mset_mono) simp
      show "\<forall>i \<in> set_mset M - set_mset ?N. fact (count ?N i) = (1::nat)"
        by (simp add: not_in_iff)
    qed
    also have "\<dots> = fact (count ?N x) * (\<Prod>y \<in> set_mset M - {x}. fact (count ?N y))"
      by (rule prod.remove) (use assms in simp_all)
    also have "(\<Prod>y \<in> set_mset M - {x}. fact (count ?N y) :: nat) = ?rest"
      by (rule prod.cong) auto
    finally show ?thesis .
  qed
  ultimately show ?thesis by (simp only: k k' fact_Suc) (simp add: algebra_simps)
qed

lemma card_arrangements: "card (arrangements M) * repeat_factor M = fact (size M)"
proof (induction "size M" arbitrary: M)
  case 0
  then show ?case by (simp add: arrangements_empty repeat_factor_def)
next
  case (Suc n)
  then have ne: "M \<noteq> {#}" by auto
  have step: "card (arrangements (M - {#x#})) * repeat_factor (M - {#x#}) = fact n"
    if "x \<in># M" for x
  proof -
    have "n = size (M - {#x#})" using that Suc.hyps(2) by (simp add: size_Diff_singleton)
    from Suc.hyps(1) [OF this] this show ?thesis by simp
  qed
  have "card (arrangements M) * repeat_factor M
        = (\<Sum>x \<in> set_mset M. card (arrangements (M - {#x#})) * repeat_factor M)"
    by (simp add: card_arrangements_step [OF ne] sum_distrib_right)
  also have "\<dots> = (\<Sum>x \<in> set_mset M. count M x * fact n)"
  proof (rule sum.cong [OF refl])
    fix x assume x: "x \<in> set_mset M"
    have "card (arrangements (M - {#x#})) * repeat_factor M
          = count M x * (card (arrangements (M - {#x#})) * repeat_factor (M - {#x#}))"
      by (simp add: repeat_factor_step [OF x])
    then show "card (arrangements (M - {#x#})) * repeat_factor M = count M x * fact n"
      using step [OF x] by simp
  qed
  also have "\<dots> = size M * fact n"
    by (simp add: sum_distrib_right [symmetric] size_multiset_overloaded_eq)
  also have "\<dots> = fact (size M)" using Suc.hyps(2) [symmetric] by simp
  finally show ?case .
qed

lemma length_roles_needed: "length (roles_needed t) = sum_list (map (\<lambda>rc. nat (snd rc)) t)"
  by (induction t) simp_all

lemma set_roles_needed: "set (roles_needed t) \<subseteq> set (map fst t)"
  by (induction t) auto

lemma repeat_factor_replicate:
  assumes "r \<notin> set xs"
  shows "repeat_factor (mset (replicate n r @ xs)) = fact n * repeat_factor (mset xs)"
proof (cases n)
  case 0
  then show ?thesis by simp
next
  case (Suc m)
  let ?M = "mset (replicate n r @ xs)"
  have s: "set_mset ?M = insert r (set xs)" using Suc by auto
  have cr: "count ?M r = n" using assms by (simp add: count_mset count_list_0_iff)
  have co: "\<And>y. y \<in> set xs \<Longrightarrow> count ?M y = count (mset xs) y"
    using assms by (auto simp: count_mset)
  have "repeat_factor ?M = fact (count ?M r) * (\<Prod>y \<in> set xs. fact (count ?M y))"
    unfolding repeat_factor_def s using assms by simp
  also have "(\<Prod>y \<in> set xs. fact (count ?M y) :: nat) = (\<Prod>y \<in> set xs. fact (count (mset xs) y))"
  proof (rule prod.cong [OF refl])
    fix y assume "y \<in> set xs"
    then show "fact (count ?M y) = (fact (count (mset xs) y) :: nat)" by (simp only: co)
  qed
  finally have "repeat_factor ?M = fact (count ?M r) * (\<Prod>y \<in> set xs. fact (count (mset xs) y))" .
  then have "repeat_factor ?M = fact n * (\<Prod>y \<in> set xs. fact (count (mset xs) y))"
    by (simp only: cr)
  then show ?thesis by (simp only: repeat_factor_def set_mset_mset)
qed

lemma repeat_factor_roles:
  "distinct (map fst t) \<Longrightarrow>
   repeat_factor (mset (roles_needed t)) = prod_list (map (\<lambda>rc. fact (nat (snd rc))) t)"
proof (induction t)
  case Nil
  then show ?case by (simp add: repeat_factor_def)
next
  case (Cons rc t)
  have "fst rc \<notin> set (roles_needed t)" using Cons.prems set_roles_needed [of t] by auto
  then have "repeat_factor (mset (replicate (nat (snd rc)) (fst rc) @ roles_needed t))
             = fact (nat (snd rc)) * repeat_factor (mset (roles_needed t))"
    by (rule repeat_factor_replicate)
  moreover have "repeat_factor (mset (roles_needed t))
                 = prod_list (map (\<lambda>rc. fact (nat (snd rc))) t)"
    using Cons by simp
  ultimately show ?case by (simp only: roles_needed.simps list.map prod_list.Cons)
qed

lemma length_orderings:
  "set_order it \<Longrightarrow> length (orderings it t) = card (arrangements (mset (roles_needed t)))"
  using orderings_distinct [of it t] orderings_set [of it t]
  by (metis arrangements_def distinct_card)

lemma orderings_count:
  assumes "set_order it" "distinct (map fst t)"
  shows "length (orderings it t) * prod_list (map (\<lambda>rc. fact (nat (snd rc))) t)
         = fact (sum_list (map (\<lambda>rc. nat (snd rc)) t))"
  using card_arrangements [of "mset (roles_needed t)"]
  by (simp add: length_orderings [OF assms(1)] repeat_factor_roles [OF assms(2)]
        length_roles_needed)

lemma prod_list_fact_pos: "0 < prod_list (map (\<lambda>rc. fact (nat (snd rc)) :: nat) t)"
  by (induction t) simp_all

section \<open>The sample data, evaluated\<close>

lemma sample_score:
  "g > 0 \<Longrightarrow> score_of (sample_hero n r g w) = real_of_int w / real_of_int g * 40"
  by (simp add: score_of_def sample_hero_def new_HeroStats_def)

lemma sample_fields:
  "role (sample_hero n r g w) = r" "games_played (sample_hero n r g w) = g"
  by (simp_all add: sample_hero_def new_HeroStats_def)

lemma alice_options:
  "options_value alice 3 =
     [(''Vanguard'', [(''Thor'', 40)]), (''Duelist'', [(''Hela'', 20)]), (''Strategist'', [])]"
  by (simp add: options_value_def option_list_def alice_def ranked_def scored_def add_new_def
      sample_score sample_fields)

lemma bob_options:
  "options_value bob 3 =
     [(''Vanguard'', []), (''Duelist'', [(''Hela'', 40), (''Storm'', 10)]),
      (''Strategist'', [(''Loki'', 10)])]"
  by (simp add: options_value_def option_list_def bob_def ranked_def scored_def add_new_def
      sample_score sample_fields)

lemma sample_options_built: "build_player_options [alice, bob] 3 [] = Inr sample_options"
  by (simp add: build_player_options_value sample_options_def alice_def bob_def)

lemma set_order_remdups: "set_order remdups"
  by (simp add: set_order_def)

lemma sample_names: "player_name alice = ''alice''" "player_name bob = ''bob''"
  by (simp_all add: alice_def bob_def)

lemma sample_built: "built_options [alice, bob] 3 = sample_options"
  by (simp add: built_options_def sample_options_def alice_def bob_def)

lemma sample_complete:
  "set roles \<subseteq> {''Vanguard'', ''Duelist'', ''Strategist''} \<Longrightarrow>
   options_complete sample_options (map player_name [alice, bob]) roles"
  using built_options_complete [of roles "[alice, bob]" 3] by (simp add: sample_built)

lemma sample_ordering: "[''Vanguard'', ''Duelist'', ''Vanguard'', ''Duelist'', ''Strategist'']
   \<in> set (orderings remdups (target_comps ! 0))"
  by (rule ordering_member [OF set_order_remdups])
     (simp add: target_comps_def eval_nat_numeral)

lemma sample_candidate:
  "(80, [(''alice'', ''Thor'', ''Vanguard''), (''bob'', ''Hela'', ''Duelist'')])
     \<in> set (pool_of remdups [alice, bob] 3)"
proof -
  have "first_fit sample_options
          (zip [''alice'', ''bob''] [''Vanguard'', ''Duelist'', ''Vanguard'', ''Duelist'', ''Strategist''])
          {} = Some [(''alice'', ''Vanguard'', ''Thor'', 40), (''bob'', ''Duelist'', ''Hela'', 40)]"
    by (simp add: sample_options_def alice_options bob_options options_for_def)
  from valid_candidates_member [OF sample_ordering this]
  have "(80, [(''alice'', ''Thor'', ''Vanguard''), (''bob'', ''Hela'', ''Duelist'')])
     \<in> set (valid_candidates sample_options [''alice'', ''bob'']
               (orderings remdups (target_comps ! 0)))"
    by (simp add: candidate_of_def record_pick_def pick_hero_def pick_score_def)
  moreover have "target_comps ! 0 \<in> set target_comps" by (simp add: target_comps_def)
  ultimately show ?thesis
    unfolding pool_of_def sample_built by (auto simp: sample_names)
qed

lemma sample_pool: "all_compositions remdups [alice, bob] 3 = Inr (pool_of remdups [alice, bob] 3)"
  by (simp add: all_compositions_value [OF set_order_remdups]
        no_overflow_small [OF set_order_remdups])

lemma sample_result:
  "find_optimal_compositions remdups [alice, bob] 3 5 =
     Inr (take 5 (sort_key (\<lambda>c. - fst c) (pool_of remdups [alice, bob] 3)))"
  by (simp add: find_optimal_compositions_value [OF set_order_remdups]
        no_overflow_small [OF set_order_remdups])

lemma full_squad_names:
  "map player_name full_squad = [''p1'', ''p2'', ''p3'', ''p4'', ''p5'', ''p6'']"
  by (simp add: full_squad_def specialist_def)

lemma specialist_options:
  "options_value (specialist n h r) 3 =
     [(''Vanguard'', if r = ''Vanguard'' then [(h, 20)] else []),
      (''Duelist'', if r = ''Duelist'' then [(h, 20)] else []),
      (''Strategist'', if r = ''Strategist'' then [(h, 20)] else [])]"
  by (simp add: options_value_def option_list_def specialist_def ranked_def scored_def add_new_def
      sample_score sample_fields)

lemma specialist_name: "player_name (specialist n h r) = n"
  by (simp add: specialist_def)

lemma full_squad_options:
  "built_options full_squad 3 =
     [(''p1'', [(''Vanguard'', [(''Thor'', 20)]), (''Duelist'', []), (''Strategist'', [])]),
      (''p2'', [(''Vanguard'', [(''Hulk'', 20)]), (''Duelist'', []), (''Strategist'', [])]),
      (''p3'', [(''Vanguard'', []), (''Duelist'', [(''Hela'', 20)]), (''Strategist'', [])]),
      (''p4'', [(''Vanguard'', []), (''Duelist'', [(''Storm'', 20)]), (''Strategist'', [])]),
      (''p5'', [(''Vanguard'', []), (''Duelist'', []), (''Strategist'', [(''Loki'', 20)])]),
      (''p6'', [(''Vanguard'', []), (''Duelist'', []), (''Strategist'', [(''Mantis'', 20)])])]"
  unfolding built_options_def full_squad_def
  by (simp add: specialist_options specialist_name)

lemma full_squad_first_five:
  "first_fit (built_options full_squad 3)
     (zip (map player_name full_squad)
        [''Vanguard'', ''Vanguard'', ''Duelist'', ''Duelist'', ''Strategist'']) {}
   = Some [(''p1'', ''Vanguard'', ''Thor'', 20), (''p2'', ''Vanguard'', ''Hulk'', 20),
           (''p3'', ''Duelist'', ''Hela'', 20), (''p4'', ''Duelist'', ''Storm'', 20),
           (''p5'', ''Strategist'', ''Loki'', 20)]"
  by (simp add: full_squad_options full_squad_names options_for_def)

lemma sample_template_results:
  "t \<in> set target_comps \<Longrightarrow>
   find_best_assignment remdups [alice, bob] sample_options t =
     Inr (valid_candidates sample_options [''alice'', ''bob''] (orderings remdups t))"
  using template_results [OF set_order_remdups, of "[alice, bob]" t 3]
  by (simp add: sample_built sample_names)

lemma sample_third:
  "(80, [(''alice'', ''Thor'', ''Vanguard''), (''bob'', ''Hela'', ''Duelist'')])
     \<in> set (valid_candidates sample_options [''alice'', ''bob'']
               (orderings remdups (target_comps ! 2)))"
proof -
  have o: "[''Vanguard'', ''Duelist'', ''Vanguard'', ''Strategist'', ''Strategist'']
             \<in> set (orderings remdups (target_comps ! 2))"
    by (rule ordering_member [OF set_order_remdups])
       (simp add: target_comps_def eval_nat_numeral)
  have "first_fit sample_options
          (zip [''alice'', ''bob'']
             [''Vanguard'', ''Duelist'', ''Vanguard'', ''Strategist'', ''Strategist'']) {}
        = Some [(''alice'', ''Vanguard'', ''Thor'', 40), (''bob'', ''Duelist'', ''Hela'', 40)]"
    by (simp add: sample_options_def alice_options bob_options options_for_def)
  from valid_candidates_member [OF o this] show ?thesis
    by (simp add: candidate_of_def record_pick_def pick_hero_def pick_score_def)
qed

lemma sample_duelists:
  "find_best_assignment remdups [alice, bob] sample_options [(''Duelist'', 2)] =
     Inr [(30, [(''alice'', ''Hela'', ''Duelist''), (''bob'', ''Storm'', ''Duelist'')])]"
proof -
  have r: "roles_needed [(''Duelist'', 2)] = [''Duelist'', ''Duelist'']"
    by (simp add: eval_nat_numeral)
  have c: "options_complete sample_options (map player_name [alice, bob])
             (roles_needed [(''Duelist'', 2)])"
    using built_options_complete [of "roles_needed [(''Duelist'', 2)]" "[alice, bob]" 3]
    by (simp add: sample_built r)
  show ?thesis
    using find_best_assignment_value [OF set_order_remdups c] unfolding orderings_def r
    by (simp add: sample_names overflow_def valid_candidates_step sample_options_def
          alice_options bob_options options_for_def candidate_of_def record_pick_def
          pick_hero_def pick_score_def)
qed

lemma sample_result_nonempty:
  "take 5 (sort_key (\<lambda>c. - fst c) (pool_of remdups [alice, bob] 3)) \<noteq> []"
proof -
  have "pool_of remdups [alice, bob] 3 \<noteq> []" using sample_candidate by auto
  then have "sort_key (\<lambda>c. - fst c) (pool_of remdups [alice, bob] 3) \<noteq> []"
    by (metis length_0_conv length_sort)
  then show ?thesis by simp
qed

lemma no_heroes_single:
  "pool_of remdups [nobody n] 3 = []"
  by (rule no_heroes_pool [OF set_order_remdups]) (simp_all add: nobody_def)

section \<open>The scoring function\<close>

text \<open>
  Claim C1. For every \<open>HeroStats h\<close> the property \<open>performance_score\<close> returns (it
  never raises) the sum of four terms computed from the other properties of \<open>h\<close>:
  \<open>win_rate * 40\<close>, \<open>min(kda, 5) / 5 * 30\<close>, the term of the role
  (\<open>min(avg_blocked_per_min / 3000, 1) * 30\<close> for a Vanguard,
  \<open>min(avg_healing_per_min / 2000, 1) * 30\<close> for a Strategist,
  \<open>min(avg_damage_per_min / 1500, 1) * 30\<close> for every other role) and
  \<open>(mvp_count + svp_count) / max(games_played, 1) * 5\<close>. The score is a function of
  the fields of \<open>h\<close> alone: \<open>HeroStats\<close> has no field that stores it, so every read
  computes it from the aggregate as it stands.
\<close>

theorem performance_score_formula:
  "\<exists>wr k dmg heal blk.
     win_rate h = Inr wr \<and> kda h = Inr k \<and>
     avg_damage_per_min h = Inr dmg \<and> avg_healing_per_min h = Inr heal \<and>
     avg_blocked_per_min h = Inr blk \<and>
     performance_score h =
       Inr (wr * 40 + min k 5 / 5 * 30
            + (if role h = ''Vanguard'' then min (blk / 3000) 1 * 30
               else if role h = ''Strategist'' then min (heal / 2000) 1 * 30
               else min (dmg / 1500) 1 * 30)
            + real_of_int (mvp_count h + svp_count h)
              / real_of_int (max (games_played h) 1) * 5)"
proof -
  obtain wr where wr: "win_rate h = Inr wr" using win_rate_value by blast
  obtain k where k: "kda h = Inr k" using kda_value by blast
  obtain dmg where dmg: "avg_damage_per_min h = Inr dmg" using avg_damage_per_min_value by blast
  obtain heal where heal: "avg_healing_per_min h = Inr heal"
    using avg_healing_per_min_value by blast
  obtain blk where blk: "avg_blocked_per_min h = Inr blk"
    using avg_blocked_per_min_value by blast
  have "performance_score h =
       Inr (wr * 40 + min k 5 / 5 * 30
            + (if role h = ''Vanguard'' then min (blk / 3000) 1 * 30
               else if role h = ''Strategist'' then min (heal / 2000) 1 * 30
               else min (dmg / 1500) 1 * 30)
            + real_of_int (mvp_count h + svp_count h)
              / real_of_int (max (games_played h) 1) * 5)"
    unfolding performance_score_def
    by (simp only: wr k dmg heal blk mvp_bonus_value bind_res_Inr
          if_distrib [of "\<lambda>m. bind_res m f" for f] if_distrib [of Inr, symmetric])
  with wr k dmg heal blk show ?thesis by blast
qed

text \<open>
  Claim C8, as the code has it. \<open>win_rate\<close> is 0 when \<open>games_played\<close> is 0; \<open>kda\<close>
  divides by \<open>max(total_deaths, 1)\<close>, which is never 0; each per-minute rate is 0 when
  \<open>total_time_played_ms\<close> is not positive: the guard of the three rates is the time
  played, not the number of games. None of the five properties, nor the score, can
  raise \<open>ZeroDivisionError\<close>.
\<close>

theorem rates_never_fault:
  "(games_played h = 0 \<longrightarrow> win_rate h = Inr 0) \<and>
   kda h = Inr (real_of_int (total_kills h + total_assists h)
                / real_of_int (max (total_deaths h) 1)) \<and>
   max (total_deaths h) 1 \<noteq> 0 \<and>
   (total_time_played_ms h \<le> 0 \<longrightarrow>
      avg_damage_per_min h = Inr 0 \<and> avg_healing_per_min h = Inr 0 \<and>
      avg_blocked_per_min h = Inr 0) \<and>
   (\<exists>wr dmg heal blk sc.
      win_rate h = Inr wr \<and> avg_damage_per_min h = Inr dmg \<and>
      avg_healing_per_min h = Inr heal \<and> avg_blocked_per_min h = Inr blk \<and>
      performance_score h = Inr sc)"
proof -
  have "max (total_deaths h) 1 \<noteq> 0" by simp
  moreover have "games_played h = 0 \<longrightarrow> win_rate h = Inr 0"
    by (simp add: win_rate_value)
  moreover have "total_time_played_ms h \<le> 0 \<longrightarrow>
      avg_damage_per_min h = Inr 0 \<and> avg_healing_per_min h = Inr 0 \<and>
      avg_blocked_per_min h = Inr 0"
    by (simp add: avg_damage_per_min_value avg_healing_per_min_value avg_blocked_per_min_value)
  moreover have "\<exists>wr dmg heal blk sc.
      win_rate h = Inr wr \<and> avg_damage_per_min h = Inr dmg \<and>
      avg_healing_per_min h = Inr heal \<and> avg_blocked_per_min h = Inr blk \<and>
      performance_score h = Inr sc"
    using win_rate_value avg_damage_per_min_value avg_healing_per_min_value
      avg_blocked_per_min_value performance_score_value by blast
  ultimately show ?thesis using kda_value by blast
qed

text \<open>A hero just created: no game, no time played, every rate 0.\<close>

theorem rates_never_fault_witness:
  "games_played (new_HeroStats ''Hela'' ''Duelist'') = 0 \<and>
   win_rate (new_HeroStats ''Hela'' ''Duelist'') = Inr 0 \<and>
   total_time_played_ms (new_HeroStats ''Hela'' ''Duelist'') \<le> 0 \<and>
   avg_damage_per_min (new_HeroStats ''Hela'' ''Duelist'') = Inr 0 \<and>
   avg_healing_per_min (new_HeroStats ''Hela'' ''Duelist'') = Inr 0 \<and>
   avg_blocked_per_min (new_HeroStats ''Hela'' ''Duelist'') = Inr 0"
  using rates_never_fault [of "new_HeroStats ''Hela'' ''Duelist''"]
  by (simp add: new_HeroStats_def)

text \<open>
  \<open>HeroStats(hero_name="Hela", role="Duelist", total_damage=1500.0,
  total_time_played_ms=60000)\<close> has no game played and a damage rate of 1500 per
  minute: the claim as the specification states it (all per-minute rates are 0 when
  \<open>games_played\<close> is 0) fails there.
\<close>

theorem rate_without_games_counterexample:
  "games_played ((new_HeroStats ''Hela'' ''Duelist'')
      \<lparr>total_damage := 1500, total_time_played_ms := 60000\<rparr>) = 0 \<and>
   avg_damage_per_min ((new_HeroStats ''Hela'' ''Duelist'')
      \<lparr>total_damage := 1500, total_time_played_ms := 60000\<rparr>) = Inr 1500 \<and>
   avg_damage_per_min ((new_HeroStats ''Hela'' ''Duelist'')
      \<lparr>total_damage := 1500, total_time_played_ms := 60000\<rparr>) \<noteq> Inr 0"
  by (simp add: new_HeroStats_def avg_damage_per_min_def truediv_def)

section \<open>Option lists\<close>

text \<open>
  Claim C5. For a player \<open>p\<close> of the list (the last of its name, so that the entry of
  \<open>player_options\<close> under that name is the one built from \<open>p\<close>) whose dict
  \<open>hero_stats\<close> has unique keys, and each of the roles Vanguard, Duelist, Strategist:
  the option list \<open>player_options[p.player_name][r]\<close> holds exactly the pairs
  (hero, score) of the first three heroes of \<open>get_best_heroes_by_role(r, min_games)\<close>
  and of the heroes of role \<open>r\<close> in \<open>get_top_heroes(5, min_games)\<close>; no hero is listed
  twice; the scores are in descending order.
\<close>

theorem option_list_contents:
  assumes "players = before @ p # after"
    and "player_name p \<notin> set (map player_name after)"
    and "distinct (map fst (hero_stats p))"
    and "r = ''Vanguard'' \<or> r = ''Duelist'' \<or> r = ''Strategist''"
  shows "\<exists>po opts lst best top.
     build_player_options players mg [] = Inr po \<and>
     getitem po (player_name p) = Inr opts \<and> getitem opts r = Inr lst \<and>
     get_best_heroes_by_role p r mg = Inr best \<and> get_top_heroes p 5 mg = Inr top \<and>
     (\<forall>n s. (n, s) \<in> set lst \<longleftrightarrow>
        (\<exists>st. ((n, st) \<in> set (slice_to 3 best) \<or> (n, st) \<in> set top \<and> role st = r) \<and>
              performance_score st = Inr s)) \<and>
     distinct (map fst lst) \<and> sorted_wrt (\<lambda>a b. snd a \<ge> snd b) lst"
proof -
  let ?RS = "ranked (filter (\<lambda>(name, stats). role stats = r \<and> games_played stats \<ge> mg) (hero_stats p))"
  let ?G = "ranked (filter (\<lambda>(name, stats). games_played stats \<ge> mg) (hero_stats p))"
  let ?k = "top5_count p mg r"
  let ?lst = "map scored (take (max 3 ?k) ?RS)"
  let ?po = "fold (\<lambda>p. AList.update (player_name p) (options_value p mg)) players []"
  have po: "build_player_options players mg [] = Inr ?po"
    by (rule build_player_options_value)
  have opts: "getitem ?po (player_name p) = Inr (options_value p mg)"
    unfolding assms(1)
    by (rule getitem_Some) (rule map_of_fold_update_last [OF assms(2)])
  have "getitem (options_value p mg) r = Inr (option_list p mg r)"
    using assms(4) by (auto simp: options_value_def getitem_def)
  then have lst: "getitem (options_value p mg) r = Inr ?lst"
    by (simp add: option_list_prefix [OF assms(3)])
  have best: "get_best_heroes_by_role p r mg = Inr ?RS"
    by (rule get_best_heroes_by_role_value)
  have top: "get_top_heroes p 5 mg = Inr (take 5 ?G)"
    by (simp add: get_top_heroes_value)
  have members: "set (take (max 3 ?k) ?RS)
                 = set (take 3 ?RS) \<union> {x \<in> set (take 5 ?G). role (snd x) = r}"
  proof -
    have "set (take ?k ?RS) = set (filter (\<lambda>x. role (snd x) = r) (take 5 ?G))"
      by (simp add: top5_of_role)
    then show ?thesis by (simp add: set_take_max)
  qed
  have mem: "\<forall>n s. (n, s) \<in> set ?lst \<longleftrightarrow>
        (\<exists>st. ((n, st) \<in> set (slice_to 3 ?RS) \<or> (n, st) \<in> set (take 5 ?G) \<and> role st = r) \<and>
              performance_score st = Inr s)"
  proof (intro allI iffI)
    fix n s assume "(n, s) \<in> set ?lst"
    then obtain x where x: "x \<in> set (take (max 3 ?k) ?RS)" "scored x = (n, s)" by auto
    then have "fst x = n" "score_of (snd x) = s" by (simp_all add: scored_def)
    moreover have "x \<in> set (take 3 ?RS) \<or> x \<in> set (take 5 ?G) \<and> role (snd x) = r"
      using x(1) members by auto
    ultimately have "((n, snd x) \<in> set (slice_to 3 ?RS) \<or> (n, snd x) \<in> set (take 5 ?G) \<and> role (snd x) = r)
       \<and> performance_score (snd x) = Inr s"
      by (auto simp: performance_score_value)
    then show "\<exists>st. ((n, st) \<in> set (slice_to 3 ?RS) \<or> (n, st) \<in> set (take 5 ?G) \<and> role st = r) \<and>
              performance_score st = Inr s" by blast
  next
    fix n s
    assume "\<exists>st. ((n, st) \<in> set (slice_to 3 ?RS) \<or> (n, st) \<in> set (take 5 ?G) \<and> role st = r) \<and>
              performance_score st = Inr s"
    then obtain st where st: "(n, st) \<in> set (slice_to 3 ?RS) \<or> (n, st) \<in> set (take 5 ?G) \<and> role st = r"
      "performance_score st = Inr s" by blast
    from st(1) have "(n, st) \<in> set (take (max 3 ?k) ?RS)" using members by auto
    moreover have "scored (n, st) = (n, s)" using st(2) by (simp add: scored_def performance_score_value)
    ultimately show "(n, s) \<in> set ?lst" by force
  qed
  have dist: "distinct (map fst ?lst)"
  proof -
    have "map fst ?lst = take (max 3 ?k) (map fst ?RS)" by (simp add: scored_def take_map)
    moreover have "distinct (map fst ?RS)"
      by (simp add: distinct_fst_ranked distinct_map_filter assms(3))
    ultimately show ?thesis by simp
  qed
  have desc: "sorted_wrt (\<lambda>a b. snd a \<ge> snd b) ?lst"
  proof -
    have "sorted_wrt (\<lambda>a b. score_of (snd a) \<ge> score_of (snd b)) (take (max 3 ?k) ?RS)"
      using ranked_descending by (rule sorted_wrt_take)
    then show ?thesis by (simp add: sorted_wrt_map scored_def)
  qed
  from po opts lst best top mem dist desc show ?thesis by blast
qed


text \<open>alice alone, three games at least, the Duelist list: Hela with score 20.\<close>

theorem option_list_contents_witness:
  "[alice] = [] @ alice # [] \<and> player_name alice \<notin> set (map player_name []) \<and>
   distinct (map fst (hero_stats alice)) \<and>
   (\<exists>po opts best top.
      build_player_options [alice] 3 [] = Inr po \<and>
      getitem po ''alice'' = Inr opts \<and> getitem opts ''Duelist'' = Inr [(''Hela'', 20)] \<and>
      get_best_heroes_by_role alice ''Duelist'' 3 = Inr best \<and> get_top_heroes alice 5 3 = Inr top \<and>
      map fst (slice_to 3 best) = [''Hela''] \<and> map fst top = [''Thor'', ''Hela''])"
  using option_list_contents [of "[alice]" "[]" alice "[]" "''Duelist''" 3]
  by (simp add: build_player_options_value alice_options getitem_def
        get_best_heroes_by_role_value get_top_heroes_value ranked_def sample_score)
     (simp add: alice_def sample_fields sample_score)

section \<open>The greedy assignment of one ordering\<close>

text \<open>
  Claim C3. Take a template whose role list is at least as long as the list of
  players, and an option table with an entry for every player and every role of the
  template (so that no lookup raises). Then \<open>find_best_assignment\<close> returns, for the
  role orderings in the order the loop sees them, the candidates of the orderings on
  which \<open>first_fit\<close> succeeds: the players are visited in the order of the list, the
  player at position \<open>i\<close> gets the role at position \<open>i\<close> and takes the first hero of
  the option list of that role that no earlier player of the same ordering has taken;
  an ordering on which some player finds no such hero gives no candidate; the score of
  a candidate is the sum of the scores of the heroes picked (\<open>candidate_of\<close>).
\<close>

theorem greedy_first_fit:
  assumes "set_order it"
    and "options_complete po (map player_name players) (roles_needed t)"
    and "length players \<le> length (roles_needed t)"
  shows "find_best_assignment it players po t =
           Inr (List.map_filter
                  (\<lambda>ra. map_option candidate_of
                           (first_fit po (zip (map player_name players) ra) {}))
                  (it (permutations (roles_needed t))))"
proof -
  have "\<not> overflow po (map player_name players) (orderings it t)"
    using assms(3) ordering_length [OF assms(1)] by (auto simp: overflow_def)
  then show ?thesis
    using find_best_assignment_value [OF assms(1,2)]
    by (simp add: valid_candidates_def orderings_def)
qed

text \<open>
  alice and bob on two Duelist slots: alice takes Hela (20), bob finds Hela taken and
  takes Storm (10). On one Vanguard and one Duelist slot, the ordering (Vanguard,
  Duelist) gives Thor and Hela (80); the ordering (Duelist, Vanguard) leaves bob without
  a Vanguard and gives nothing.
\<close>

theorem greedy_first_fit_witness:
  "set_order remdups \<and>
   options_complete sample_options (map player_name [alice, bob]) (roles_needed [(''Duelist'', 2)]) \<and>
   length [alice, bob] \<le> length (roles_needed [(''Duelist'', 2)]) \<and>
   find_best_assignment remdups [alice, bob] sample_options [(''Duelist'', 2)] =
     Inr [(30, [(''alice'', ''Hela'', ''Duelist''), (''bob'', ''Storm'', ''Duelist'')])] \<and>
   options_complete sample_options (map player_name [alice, bob])
     (roles_needed [(''Vanguard'', 1), (''Duelist'', 1)]) \<and>
   length [alice, bob] \<le> length (roles_needed [(''Vanguard'', 1), (''Duelist'', 1)]) \<and>
   find_best_assignment remdups [alice, bob] sample_options [(''Vanguard'', 1), (''Duelist'', 1)] =
     Inr [(80, [(''alice'', ''Thor'', ''Vanguard''), (''bob'', ''Hela'', ''Duelist'')])]"
proof -
  have r1: "roles_needed [(''Duelist'', 2)] = [''Duelist'', ''Duelist'']"
    by (simp add: eval_nat_numeral)
  have r2: "roles_needed [(''Vanguard'', 1), (''Duelist'', 1)] = [''Vanguard'', ''Duelist'']"
    by simp
  have c1: "options_complete sample_options (map player_name [alice, bob])
              (roles_needed [(''Duelist'', 2)])"
    by (rule sample_complete) (simp add: r1)
  have c2: "options_complete sample_options (map player_name [alice, bob])
              (roles_needed [(''Vanguard'', 1), (''Duelist'', 1)])"
    by (rule sample_complete) (simp add: r2)
  have l1: "length [alice, bob] \<le> length (roles_needed [(''Duelist'', 2)])"
    by (simp add: r1)
  have l2: "length [alice, bob] \<le> length (roles_needed [(''Vanguard'', 1), (''Duelist'', 1)])"
    by (simp add: r2)
  have e1: "find_best_assignment remdups [alice, bob] sample_options [(''Duelist'', 2)] =
     Inr [(30, [(''alice'', ''Hela'', ''Duelist''), (''bob'', ''Storm'', ''Duelist'')])]"
    using greedy_first_fit [OF set_order_remdups c1 l1] unfolding r1
    by (simp add: sample_names List.map_filter_simps sample_options_def alice_options
          bob_options options_for_def candidate_of_def record_pick_def pick_hero_def
          pick_score_def)
  have e2: "find_best_assignment remdups [alice, bob] sample_options
              [(''Vanguard'', 1), (''Duelist'', 1)] =
     Inr [(80, [(''alice'', ''Thor'', ''Vanguard''), (''bob'', ''Hela'', ''Duelist'')])]"
    using greedy_first_fit [OF set_order_remdups c2 l2] unfolding r2
    by (simp add: sample_names List.map_filter_simps sample_options_def alice_options
          bob_options options_for_def candidate_of_def record_pick_def pick_hero_def
          pick_score_def)
  from set_order_remdups c1 l1 e1 c2 l2 e2 show ?thesis by blast
qed

section \<open>No hero twice in a candidate\<close>

text \<open>
  Claim C4. In every candidate that \<open>find_best_assignment\<close> returns, hence in every
  candidate of the pool of \<open>find_optimal_compositions\<close> and in every candidate of its
  result, no player has two entries and no hero is assigned to two players.
\<close>

theorem no_hero_assigned_twice:
  "(find_best_assignment it players po t = Inr cs \<longrightarrow> (\<forall>c \<in> set cs. no_hero_twice (snd c))) \<and>
   (all_compositions it players mg = Inr pool \<longrightarrow> (\<forall>c \<in> set pool. no_hero_twice (snd c))) \<and>
   (find_optimal_compositions it players mg top_n = Inr result \<longrightarrow>
      (\<forall>c \<in> set result. no_hero_twice (snd c)))"
proof (intro conjI impI)
  assume "find_best_assignment it players po t = Inr cs"
  then show "\<forall>c \<in> set cs. no_hero_twice (snd c)"
    by (rule find_best_assignment_no_hero_twice)
next
  assume "all_compositions it players mg = Inr pool"
  then show "\<forall>c \<in> set pool. no_hero_twice (snd c)"
    by (rule all_compositions_no_hero_twice)
next
  assume r: "find_optimal_compositions it players mg top_n = Inr result"
  then obtain pool where p: "all_compositions it players mg = Inr pool"
    and res: "result = slice_to top_n (sort_key (\<lambda>c. - fst c) pool)"
    by (auto simp: find_optimal_compositions_def bind_res_def split: sum.splits)
  have "set result \<subseteq> set pool" using set_slice_to [of top_n] res by fastforce
  then show "\<forall>c \<in> set result. no_hero_twice (snd c)"
    using all_compositions_no_hero_twice [OF p] by blast
qed

text \<open>The sample squad: a candidate of a template, one of the pool, one of the result.\<close>

theorem no_hero_assigned_twice_witness:
  "find_best_assignment remdups [alice, bob] sample_options [(''Duelist'', 2)] =
     Inr [(30, [(''alice'', ''Hela'', ''Duelist''), (''bob'', ''Storm'', ''Duelist'')])] \<and>
   no_hero_twice [(''alice'', ''Hela'', ''Duelist''), (''bob'', ''Storm'', ''Duelist'')] \<and>
   all_compositions remdups [alice, bob] 3 = Inr (pool_of remdups [alice, bob] 3) \<and>
   (80, [(''alice'', ''Thor'', ''Vanguard''), (''bob'', ''Hela'', ''Duelist'')])
     \<in> set (pool_of remdups [alice, bob] 3) \<and>
   no_hero_twice [(''alice'', ''Thor'', ''Vanguard''), (''bob'', ''Hela'', ''Duelist'')] \<and>
   find_optimal_compositions remdups [alice, bob] 3 5 =
     Inr (take 5 (sort_key (\<lambda>c. - fst c) (pool_of remdups [alice, bob] 3))) \<and>
   hd (take 5 (sort_key (\<lambda>c. - fst c) (pool_of remdups [alice, bob] 3)))
     \<in> set (take 5 (sort_key (\<lambda>c. - fst c) (pool_of remdups [alice, bob] 3))) \<and>
   no_hero_twice
     (snd (hd (take 5 (sort_key (\<lambda>c. - fst c) (pool_of remdups [alice, bob] 3)))))"
proof -
  let ?R = "take 5 (sort_key (\<lambda>c. - fst c) (pool_of remdups [alice, bob] 3))"
  have h: "hd ?R \<in> set ?R" using sample_result_nonempty by (rule hd_in_set)
  note t = no_hero_assigned_twice [of remdups "[alice, bob]" sample_options "[(''Duelist'', 2)]"
      "[(30, [(''alice'', ''Hela'', ''Duelist''), (''bob'', ''Storm'', ''Duelist'')])]" 3
      "pool_of remdups [alice, bob] 3" 5 ?R]
  have a: "no_hero_twice [(''alice'', ''Hela'', ''Duelist''), (''bob'', ''Storm'', ''Duelist'')]"
    using t sample_duelists by simp
  have b: "no_hero_twice [(''alice'', ''Thor'', ''Vanguard''), (''bob'', ''Hela'', ''Duelist'')]"
    using t sample_pool sample_candidate by fastforce
  have c: "no_hero_twice (snd (hd ?R))"
    using t sample_result h by blast
  from a b c h sample_duelists sample_pool sample_candidate sample_result show ?thesis
    by blast
qed

section \<open>The result of the search\<close>

text \<open>
  Claim C2. \<open>pool_of it players mg\<close> is the concatenation, template after template,
  of the valid candidates of the five templates; for at most five players these are
  what the five calls of \<open>find_best_assignment\<close> return on the option table that
  \<open>build_player_options\<close> builds. For at most five players and \<open>top_n\<close> not
  negative, \<open>find_optimal_compositions\<close> returns the first \<open>top_n\<close> elements of the
  pool sorted by descending score (a stable sort: a permutation of the pool, in
  descending order of the score). When no ordering of any template gives a valid
  candidate, the result is the empty list, not an error.
\<close>

theorem top_n_of_sorted_pool:
  assumes "set_order it"
  shows "build_player_options players mg [] = Inr (built_options players mg) \<and>
     (length players \<le> 5 \<longrightarrow>
        map (find_best_assignment it players (built_options players mg)) target_comps =
          map (\<lambda>t. Inr (valid_candidates (built_options players mg) (map player_name players)
                          (orderings it t))) target_comps) \<and>
     (length players \<le> 5 \<and> 0 \<le> top_n \<longrightarrow>
        find_optimal_compositions it players mg top_n =
          Inr (take (nat top_n) (sort_key (\<lambda>c. - fst c) (pool_of it players mg)))) \<and>
     sorted_wrt (\<lambda>a b. fst b \<le> fst a) (sort_key (\<lambda>c. - fst c) (pool_of it players mg)) \<and>
     mset (sort_key (\<lambda>c. - fst c) (pool_of it players mg)) = mset (pool_of it players mg) \<and>
     (pool_of it players mg = [] \<longrightarrow> find_optimal_compositions it players mg top_n = Inr [])"
proof -
  have a: "build_player_options players mg [] = Inr (built_options players mg)"
    by (simp add: build_player_options_value built_options_def)
  have b: "map (find_best_assignment it players (built_options players mg)) target_comps =
          map (\<lambda>t. Inr (valid_candidates (built_options players mg) (map player_name players)
                          (orderings it t))) target_comps" if "length players \<le> 5"
    using template_results [OF assms that] by simp
  have c: "find_optimal_compositions it players mg top_n =
          Inr (take (nat top_n) (sort_key (\<lambda>c. - fst c) (pool_of it players mg)))"
    if "length players \<le> 5" "0 \<le> top_n"
    using that no_overflow_small [OF assms that(1)]
    by (simp add: find_optimal_compositions_value [OF assms] slice_to_def)
  have "sorted (map (\<lambda>c. - fst c) (sort_key (\<lambda>c. - fst c) (pool_of it players mg)))"
    by (rule sorted_sort_key)
  then have d: "sorted_wrt (\<lambda>a b. fst b \<le> fst a)
                  (sort_key (\<lambda>c. - fst c) (pool_of it players mg))"
    by (simp add: sorted_map)
  have e: "find_optimal_compositions it players mg top_n = Inr []"
    if "pool_of it players mg = []"
    using that any_overflow_pool [of it players mg]
    by (auto simp: find_optimal_compositions_value [OF assms] slice_to_def)
  from a b c d e show ?thesis by simp
qed

text \<open>
  The sample squad with \<open>top_n = 5\<close>, its pool holding the candidate Thor and Hela;
  and a player without any hero, whose pool and result are empty.
\<close>

theorem top_n_of_sorted_pool_witness:
  "set_order remdups \<and> length [alice, bob] \<le> 5 \<and> (0::int) \<le> 5 \<and>
   find_optimal_compositions remdups [alice, bob] 3 5 =
     Inr (take (nat 5) (sort_key (\<lambda>c. - fst c) (pool_of remdups [alice, bob] 3))) \<and>
   (80, [(''alice'', ''Thor'', ''Vanguard''), (''bob'', ''Hela'', ''Duelist'')])
     \<in> set (pool_of remdups [alice, bob] 3) \<and>
   pool_of remdups [nobody ''zed''] 3 = [] \<and>
   find_optimal_compositions remdups [nobody ''zed''] 3 5 = Inr []"
  using top_n_of_sorted_pool [OF set_order_remdups, of "[alice, bob]" 3 5]
    top_n_of_sorted_pool [OF set_order_remdups, of "[nobody ''zed'']" 3 5]
    set_order_remdups sample_candidate no_heroes_single [of "''zed''"]
  by simp

section \<open>The templates\<close>

text \<open>
  Claim C9. \<open>target_comps\<close> has five templates; the third and the fifth are the same
  (2 Vanguard, 1 Duelist, 2 Strategist) and the first four differ from one another, so
  four distinct distributions are searched. When the search returns, the pool before
  sorting is the plain concatenation of the results of the five calls of
  \<open>find_best_assignment\<close>, the fifth being the third once more: every candidate of
  the duplicated template stands in the pool at least twice, nothing is removed.
\<close>

theorem duplicated_template:
  "length target_comps = 5 \<and>
   target_comps ! 2 = [(''Vanguard'', 2), (''Duelist'', 1), (''Strategist'', 2)] \<and>
   target_comps ! 4 = target_comps ! 2 \<and>
   distinct (take 4 target_comps) \<and> set target_comps = set (take 4 target_comps) \<and>
   (all_compositions it players mg = Inr pool \<longrightarrow>
      (\<exists>po c0 c1 c2 c3.
         build_player_options players mg [] = Inr po \<and>
         find_best_assignment it players po (target_comps ! 0) = Inr c0 \<and>
         find_best_assignment it players po (target_comps ! 1) = Inr c1 \<and>
         find_best_assignment it players po (target_comps ! 2) = Inr c2 \<and>
         find_best_assignment it players po (target_comps ! 3) = Inr c3 \<and>
         find_best_assignment it players po (target_comps ! 4) = Inr c2 \<and>
         pool = c0 @ c1 @ c2 @ c3 @ c2 \<and>
         (\<forall>c \<in> set c2. 2 \<le> count_list pool c)))"
proof -
  have a: "length target_comps = 5"
    "target_comps ! 2 = [(''Vanguard'', 2), (''Duelist'', 1), (''Strategist'', 2)]"
    "target_comps ! 4 = target_comps ! 2"
    "distinct (take 4 target_comps)" "set target_comps = set (take 4 target_comps)"
    by (auto simp: target_comps_def)
  have b: "\<exists>po c0 c1 c2 c3.
         build_player_options players mg [] = Inr po \<and>
         find_best_assignment it players po (target_comps ! 0) = Inr c0 \<and>
         find_best_assignment it players po (target_comps ! 1) = Inr c1 \<and>
         find_best_assignment it players po (target_comps ! 2) = Inr c2 \<and>
         find_best_assignment it players po (target_comps ! 3) = Inr c3 \<and>
         find_best_assignment it players po (target_comps ! 4) = Inr c2 \<and>
         pool = c0 @ c1 @ c2 @ c3 @ c2 \<and>
         (\<forall>c \<in> set c2. 2 \<le> count_list pool c)"
    if p: "all_compositions it players mg = Inr pool"
  proof -
    let ?po = "built_options players mg"
    have po: "build_player_options players mg [] = Inr ?po"
      by (simp add: build_player_options_value built_options_def)
    have "target_loop it players ?po
            [target_comps ! 0, target_comps ! 1, target_comps ! 2, target_comps ! 3,
             target_comps ! 4] [] = Inr pool"
      using p by (simp add: all_compositions_def po target_comps_def)
    from target_loop_five [OF this] obtain c0 c1 c2 c3 c4 where
      c: "find_best_assignment it players ?po (target_comps ! 0) = Inr c0"
         "find_best_assignment it players ?po (target_comps ! 1) = Inr c1"
         "find_best_assignment it players ?po (target_comps ! 2) = Inr c2"
         "find_best_assignment it players ?po (target_comps ! 3) = Inr c3"
         "find_best_assignment it players ?po (target_comps ! 4) = Inr c4"
         "pool = c0 @ c1 @ c2 @ c3 @ c4"
      by blast
    have "c4 = c2" using c(3,5) a(3) by simp
    moreover have "\<forall>c \<in> set c2. 2 \<le> count_list (c0 @ c1 @ c2 @ c3 @ c2) c"
    proof
      fix x assume "x \<in> set c2"
      then have "1 \<le> count_list c2 x" by (metis count_list_0_iff not_less_eq_eq le0 Suc_leI neq0_conv One_nat_def)
      then show "2 \<le> count_list (c0 @ c1 @ c2 @ c3 @ c2) x" by simp
    qed
    ultimately show ?thesis using c po by blast
  qed
  from a b show ?thesis by blast
qed

text \<open>The sample squad: the candidate Thor and Hela of the third template is in the pool twice.\<close>

theorem duplicated_template_witness:
  "all_compositions remdups [alice, bob] 3 = Inr (pool_of remdups [alice, bob] 3) \<and>
   find_best_assignment remdups [alice, bob] sample_options (target_comps ! 2) =
     Inr (valid_candidates sample_options [''alice'', ''bob'']
            (orderings remdups (target_comps ! 2))) \<and>
   (80, [(''alice'', ''Thor'', ''Vanguard''), (''bob'', ''Hela'', ''Duelist'')])
     \<in> set (valid_candidates sample_options [''alice'', ''bob'']
               (orderings remdups (target_comps ! 2))) \<and>
   2 \<le> count_list (pool_of remdups [alice, bob] 3)
         (80, [(''alice'', ''Thor'', ''Vanguard''), (''bob'', ''Hela'', ''Duelist'')])"
proof -
  have t2: "target_comps ! 2 \<in> set target_comps" by (simp add: target_comps_def)
  note r = sample_template_results [OF t2]
  from duplicated_template [of remdups "[alice, bob]" 3 "pool_of remdups [alice, bob] 3"]
    sample_pool
  obtain po c0 c1 c2 c3 where
    po: "build_player_options [alice, bob] 3 [] = Inr po"
    and c2: "find_best_assignment remdups [alice, bob] po (target_comps ! 2) = Inr c2"
    and cnt: "\<forall>c \<in> set c2. 2 \<le> count_list (pool_of remdups [alice, bob] 3) c"
    by blast
  have "po = sample_options" using po unfolding sample_options_built by simp
  then have "c2 = valid_candidates sample_options [''alice'', ''bob'']
                    (orderings remdups (target_comps ! 2))"
    using c2 r by simp
  then show ?thesis using cnt sample_third sample_pool r by blast
qed

section \<open>Indexing the role ordering\<close>

text \<open>
  Claim C10, as the code has it. Every ordering of a template of \<open>target_comps\<close> has
  five elements. With at most five players no access \<open>role_assignment[i]\<close> is out of
  range and \<open>find_optimal_compositions\<close> returns. The only error it can raise is
  \<open>IndexError\<close>, and it raises it exactly when there are more than five players and,
  for some ordering of some template, each of the first five players finds an unused
  hero, so that the sixth player is reached; an ordering abandoned earlier never reads
  position 5. Every candidate returned assigns at most as many slots as there are
  players, hence fewer than five for fewer than five players.
\<close>

theorem index_in_bounds:
  assumes "set_order it"
  shows "(\<forall>t \<in> set target_comps. \<forall>ra \<in> set (orderings it t). length ra = 5) \<and>
     build_player_options players mg [] = Inr (built_options players mg) \<and>
     (length players \<le> 5 \<longrightarrow>
        (\<exists>cs. find_optimal_compositions it players mg top_n = Inr cs)) \<and>
     (find_optimal_compositions it players mg top_n = Inl e \<longleftrightarrow>
        e = IndexError \<and> 5 < length players \<and>
        (\<exists>t \<in> set target_comps. \<exists>ra \<in> set (orderings it t).
           first_fit (built_options players mg) (zip (map player_name players) ra) {} \<noteq> None)) \<and>
     (\<forall>cs c. find_optimal_compositions it players mg top_n = Inr cs \<and> c \<in> set cs \<longrightarrow>
        length (snd c) \<le> length players)"
proof -
  have a: "\<forall>t \<in> set target_comps. \<forall>ra \<in> set (orderings it t). length ra = 5"
    using target_ordering_length [OF assms] by blast
  have b: "build_player_options players mg [] = Inr (built_options players mg)"
    by (simp add: build_player_options_value built_options_def)
  have s: "\<And>t. set (orderings it t) = set (permutations (roles_needed t))"
    using assms by (simp add: orderings_def set_order_def)
  have o: "any_overflow it players mg \<longleftrightarrow>
        5 < length players \<and>
        (\<exists>t \<in> set target_comps. \<exists>ra \<in> set (orderings it t).
           first_fit (built_options players mg) (zip (map player_name players) ra) {} \<noteq> None)"
    by (simp add: any_overflow_players [OF assms] s)
  have c: "\<exists>cs. find_optimal_compositions it players mg top_n = Inr cs"
    if "length players \<le> 5"
    using that o by (simp add: find_optimal_compositions_value [OF assms])
  have d: "find_optimal_compositions it players mg top_n = Inl e \<longleftrightarrow>
        e = IndexError \<and> 5 < length players \<and>
        (\<exists>t \<in> set target_comps. \<exists>ra \<in> set (orderings it t).
           first_fit (built_options players mg) (zip (map player_name players) ra) {} \<noteq> None)"
    unfolding o [symmetric] by (auto simp: find_optimal_compositions_value [OF assms])
  have e: "\<forall>cs c. find_optimal_compositions it players mg top_n = Inr cs \<and> c \<in> set cs \<longrightarrow>
        length (snd c) \<le> length players"
    by (auto simp: find_optimal_compositions_value [OF assms] split: if_splits
          dest: pool_candidate_length_sorted)
  from a b c d e show ?thesis by blast
qed

text \<open>
  The sample squad of two returns, and its candidates have at most two entries; the
  squad of six specialists gets through the ordering (Vanguard, Vanguard, Duelist,
  Duelist, Strategist) with its first five players and raises \<open>IndexError\<close>.
\<close>

theorem index_in_bounds_witness:
  "set_order remdups \<and> length [alice, bob] \<le> 5 \<and>
   find_optimal_compositions remdups [alice, bob] 3 5 =
     Inr (take 5 (sort_key (\<lambda>c. - fst c) (pool_of remdups [alice, bob] 3))) \<and>
   hd (take 5 (sort_key (\<lambda>c. - fst c) (pool_of remdups [alice, bob] 3)))
     \<in> set (take 5 (sort_key (\<lambda>c. - fst c) (pool_of remdups [alice, bob] 3))) \<and>
   length (snd (hd (take 5 (sort_key (\<lambda>c. - fst c) (pool_of remdups [alice, bob] 3)))))
     \<le> length [alice, bob] \<and>
   5 < length full_squad \<and>
   target_comps ! 0 \<in> set target_comps \<and>
   [''Vanguard'', ''Vanguard'', ''Duelist'', ''Duelist'', ''Strategist'']
     \<in> set (orderings remdups (target_comps ! 0)) \<and>
   length [''Vanguard'', ''Vanguard'', ''Duelist'', ''Duelist'', ''Strategist''] = 5 \<and>
   first_fit (built_options full_squad 3)
     (zip (map player_name full_squad)
        [''Vanguard'', ''Vanguard'', ''Duelist'', ''Duelist'', ''Strategist'']) {} \<noteq> None \<and>
   find_optimal_compositions remdups full_squad 3 5 = Inl IndexError"
proof -
  let ?R = "take 5 (sort_key (\<lambda>c. - fst c) (pool_of remdups [alice, bob] 3))"
  have h: "hd ?R \<in> set ?R" using sample_result_nonempty by (rule hd_in_set)
  have t0: "target_comps ! 0 \<in> set target_comps" by (simp add: target_comps_def)
  have o2: "[''Vanguard'', ''Vanguard'', ''Duelist'', ''Duelist'', ''Strategist'']
     \<in> set (orderings remdups (target_comps ! 0))"
    by (rule ordering_member [OF set_order_remdups])
       (simp add: target_comps_def eval_nat_numeral)
  have ff: "first_fit (built_options full_squad 3)
     (zip (map player_name full_squad)
        [''Vanguard'', ''Vanguard'', ''Duelist'', ''Duelist'', ''Strategist'']) {} \<noteq> None"
    by (simp add: full_squad_first_five)
  have six: "5 < length full_squad" by (simp add: full_squad_def)
  have e: "find_optimal_compositions remdups full_squad 3 5 = Inl IndexError"
    using index_in_bounds [OF set_order_remdups, of full_squad 3 5 IndexError] six t0 o2 ff
    by blast
  have l: "length (snd (hd ?R)) \<le> length [alice, bob]"
    using index_in_bounds [OF set_order_remdups, of "[alice, bob]" 3 5 IndexError]
      sample_result h by blast
  have "length [alice, bob] \<le> 5" by simp
  with e l h show ?thesis
    using set_order_remdups sample_result t0 o2 ff six by simp
qed

text \<open>
  Six players without any hero: every ordering is abandoned at the first player, no
  index beyond position 0 is read, and the call returns the empty list. The claim as
  stated (six or more players reach an out-of-range index) fails there.
\<close>

theorem six_players_counterexample:
  "length empty_squad = 6 \<and> find_optimal_compositions remdups empty_squad 3 5 = Inr []"
proof -
  have "find_optimal_compositions remdups empty_squad 3 5 = Inr []"
    by (rule no_heroes_result [OF set_order_remdups]) (simp_all add: empty_squad_def nobody_def)
  then show ?thesis by (simp add: empty_squad_def)
qed

section \<open>The number of orderings\<close>

text \<open>
  Claim C6. For a template whose roles are distinct keys, \<open>find_best_assignment\<close>
  runs its loop over \<open>orderings it t\<close>, which holds every arrangement of the role list
  once. Their number times the product of the factorials of the role counts is the
  factorial of the number of roles; for five roles it is \<open>5!\<close> divided by that product,
  and for role counts 2, 2, 1 in any arrangement it is 30.
\<close>

theorem distinct_orderings_count:
  assumes "set_order it" and "distinct (map fst t)"
  shows "find_best_assignment it players po t =
           ordering_loop po (map player_name players) (orderings it t) [] \<and>
         distinct (orderings it t) \<and>
         set (orderings it t) = {ra. mset ra = mset (roles_needed t)} \<and>
         length (orderings it t) * prod_list (map (\<lambda>rc. fact (nat (snd rc))) t)
           = fact (sum_list (map (\<lambda>rc. nat (snd rc)) t)) \<and>
         (sum_list (map (\<lambda>rc. nat (snd rc)) t) = 5 \<longrightarrow>
            length (orderings it t)
              = fact 5 div prod_list (map (\<lambda>rc. fact (nat (snd rc))) t)) \<and>
         (mset (map snd t) = {#2, 2, 1#} \<longrightarrow> length (orderings it t) = 30)"
proof -
  let ?p = "prod_list (map (\<lambda>rc. fact (nat (snd rc)) :: nat) t)"
  let ?s = "sum_list (map (\<lambda>rc. nat (snd rc)) t)"
  have c: "length (orderings it t) * ?p = fact ?s" by (rule orderings_count [OF assms])
  have d: "length (orderings it t) = fact ?s div ?p"
    using c prod_list_fact_pos [of t] by (metis nonzero_mult_div_cancel_right less_numeral_extra(3))
  have e: "length (orderings it t) = 30" if m: "mset (map snd t) = {#2, 2, 1#}"
  proof -
    have "mset (map (\<lambda>rc. fact (nat (snd rc)) :: nat) t)
          = image_mset (\<lambda>c. fact (nat c)) (mset (map snd t))"
      by (simp add: multiset.map_comp comp_def)
    then have "prod_mset (mset (map (\<lambda>rc. fact (nat (snd rc)) :: nat) t)) = 4"
      unfolding m by (simp add: eval_nat_numeral)
    then have p: "?p = 4" by (simp only: prod_mset_prod_list)
    have "mset (map (\<lambda>rc. nat (snd rc)) t) = image_mset nat (mset (map snd t))"
      by (simp add: multiset.map_comp comp_def)
    then have "sum_mset (mset (map (\<lambda>rc. nat (snd rc)) t)) = 5"
      unfolding m by simp
    then have s: "?s = 5" by (simp only: sum_mset_sum_list)
    have "fact 5 = (120::nat)" by (simp add: eval_nat_numeral)
    then show ?thesis using d by (simp add: p s)
  qed
  show ?thesis
    using c d e orderings_distinct [OF assms(1)] orderings_set [OF assms(1)]
    by (simp add: find_best_assignment_def orderings_def)
qed

text \<open>The first template (2, 2, 1) has 30 orderings, the fourth (1, 3, 1) has 20.\<close>

theorem distinct_orderings_count_witness:
  "set_order remdups \<and>
   distinct (map fst [(''Vanguard'', 2::int), (''Duelist'', 2), (''Strategist'', 1)]) \<and>
   sum_list (map (\<lambda>rc. nat (snd rc)) [(''Vanguard'', 2::int), (''Duelist'', 2), (''Strategist'', 1)]) = 5 \<and>
   mset (map snd [(''Vanguard'', 2::int), (''Duelist'', 2), (''Strategist'', 1)]) = {#2, 2, 1#} \<and>
   length (orderings remdups [(''Vanguard'', 2), (''Duelist'', 2), (''Strategist'', 1)]) = 30 \<and>
   length (orderings remdups [(''Vanguard'', 1), (''Duelist'', 3), (''Strategist'', 1)]) = 20"
proof -
  have d1: "distinct (map fst [(''Vanguard'', 2::int), (''Duelist'', 2), (''Strategist'', 1)])"
    by simp
  have d2: "distinct (map fst [(''Vanguard'', 1::int), (''Duelist'', 3), (''Strategist'', 1)])"
    by simp
  have f: "fact 5 = (120::nat)" "fact 3 = (6::nat)" by (simp_all add: eval_nat_numeral)
  show ?thesis
    using distinct_orderings_count [OF set_order_remdups d1, of "[]" "[]"]
      distinct_orderings_count [OF set_order_remdups d2, of "[]" "[]"]
    by (simp add: set_order_remdups f)
qed

end
